theory Spec2Isabelle
  imports Main
begin

section \<open>Python values\<close>

text \<open>
  A Python \<open>str\<close> is a sequence of Unicode code points; it is modelled as a list of
  natural numbers, one per code point.
\<close>

type_synonym pystr = "nat list"

text \<open>
  The values that occur in a row of the feed (a dict produced by pandas from the
  spreadsheet) and in the JSON answers of the marketplaces: \<open>None\<close>, integers and
  strings. Floating-point cells are outside the model.
\<close>

datatype pyval = PNone | PInt int | PStr pystr

text \<open>The exceptions that the two modules can raise or let through.\<close>

datatype error = HTTPError | ReadTimeout | ConnectionError
  | ValueError | TypeError | AttributeError | IndexError

text \<open>An ASCII literal of the source as a list of code points.\<close>

definition lit :: "string \<Rightarrow> pystr" where
  "lit s = map of_char s"

text \<open>
  A dict with string keys; \<^verbatim>\<open>d.get(k)\<close> returns \<open>None\<close> for a missing key.
\<close>

type_synonym pydict = "pystr \<rightharpoonup> pyval"

definition dict_get :: "pydict \<Rightarrow> pystr \<Rightarrow> pyval" where
  "dict_get d k = (case d k of None \<Rightarrow> PNone | Some v \<Rightarrow> v)"

text \<open>The three column names of the feed that the code reads.\<close>

definition key_code :: pystr where
  "key_code = [0x41A, 0x43E, 0x434]"

definition key_quantity :: pystr where
  "key_quantity = [0x41A, 0x43E, 0x43B, 0x438, 0x447, 0x435, 0x441, 0x442, 0x432, 0x43E]"

definition key_price :: pystr where
  "key_price = [0x426, 0x435, 0x43D, 0x430]"

subsection \<open>The builtin str\<close>

text \<open>
  \<^verbatim>\<open>str\<close> of \<open>None\<close>, of an integer (its decimal digits, with a minus sign when negative)
  and of a string. The integers of a spreadsheet cell are machine-sized, so the
  interpreter's limit on the digits of a conversion, which \<^verbatim>\<open>int\<close> below observes, is never
  reached by \<^verbatim>\<open>str\<close> here and is left out of it.
\<close>

fun nat_digits :: "nat \<Rightarrow> pystr" where
  "nat_digits n = (if n < 10 then [48 + n] else nat_digits (n div 10) @ [48 + n mod 10])"

declare nat_digits.simps [simp del]

definition int_str :: "int \<Rightarrow> pystr" where
  "int_str i = (if i < 0 then 45 # nat_digits (nat (- i)) else nat_digits (nat i))"

fun py_str :: "pyval \<Rightarrow> pystr" where
  "py_str PNone = lit ''None''"
| "py_str (PInt i) = int_str i"
| "py_str (PStr s) = s"

subsection \<open>The builtin int\<close>

text \<open>
  \<^verbatim>\<open>int(s)\<close> for a string: blanks are stripped at both ends, one sign may follow, then
  decimal digits with single underscores between digits. A code point below 127 is a
  blank when it is one of TAB, LF, VT, FF, CR and space, and a digit when it is one of
  \<open>0\<close> to \<open>9\<close>; a code point from 127 on is classified by the interpreter's Unicode
  tables (white space, and the decimal digits of category Nd, which come in runs of ten
  from a zero digit; the table below is that of Unicode 14).
\<close>

definition uni_space :: "nat \<Rightarrow> bool" where
  "uni_space c \<longleftrightarrow>
     c \<in> {0x85, 0xA0, 0x1680, 0x2028, 0x2029, 0x202F, 0x205F, 0x3000}
     \<or> (0x2000 \<le> c \<and> c \<le> 0x200A)"

definition nd_zeros :: "nat list" where
  "nd_zeros =
    [0x660, 0x6F0, 0x7C0, 0x966, 0x9E6, 0xA66, 0xAE6, 0xB66, 0xBE6, 0xC66, 0xCE6, 0xD66,
     0xDE6, 0xE50, 0xED0, 0xF20, 0x1040, 0x1090, 0x17E0, 0x1810, 0x1946, 0x19D0, 0x1A80,
     0x1A90, 0x1B50, 0x1BB0, 0x1C40, 0x1C50, 0xA620, 0xA8D0, 0xA900, 0xA9D0, 0xA9F0,
     0xAA50, 0xABF0, 0xFF10, 0x104A0, 0x10D30, 0x11066, 0x110F0, 0x11136, 0x111D0,
     0x112F0, 0x11450, 0x114D0, 0x11650, 0x116C0, 0x11730, 0x118E0, 0x11950, 0x11C50,
     0x11D50, 0x11DA0, 0x16A60, 0x16AC0, 0x16B50, 0x1D7CE, 0x1D7D8, 0x1D7E2, 0x1D7EC,
     0x1D7F6, 0x1E140, 0x1E2F0, 0x1E950, 0x1FBF0]"

definition is_space :: "nat \<Rightarrow> bool" where
  "is_space c \<longleftrightarrow> c \<in> {9, 10, 11, 12, 13, 32} \<or> (127 \<le> c \<and> uni_space c)"

definition digit_val :: "nat \<Rightarrow> nat option" where
  "digit_val c =
     (if 48 \<le> c \<and> c \<le> 57 then Some (c - 48)
      else if c < 127 then None
      else (case find (\<lambda>z. z \<le> c \<and> c < z + 10) nd_zeros of
              None \<Rightarrow> None | Some z \<Rightarrow> Some (c - z)))"

definition strip :: "pystr \<Rightarrow> pystr" where
  "strip s = rev (dropWhile is_space (rev (dropWhile is_space s)))"

text \<open>
  The digits after the sign: \<open>acc\<close> is the value read so far, \<open>pd\<close> tells whether
  the previous character was a digit (an underscore is accepted only then, and the
  text must end on a digit).
\<close>

fun parse_digits :: "int \<Rightarrow> bool \<Rightarrow> pystr \<Rightarrow> int option" where
  "parse_digits acc pd [] = (if pd then Some acc else None)"
| "parse_digits acc pd (c # cs) =
     (case digit_val c of
        Some d \<Rightarrow> parse_digits (10 * acc + int d) True cs
      | None \<Rightarrow> if c = 95 \<and> pd then parse_digits acc False cs else None)"

text \<open>The decimal values of the digits that occur in a text, in order.\<close>

definition digits_of :: "pystr \<Rightarrow> nat list" where
  "digits_of s = List.map_filter digit_val s"

text \<open>
  The interpreter refuses to convert a text with more digits than its limit (the default
  of CPython 3.11, \<^verbatim>\<open>sys.get_int_max_str_digits()\<close>); blanks, the sign and underscores do
  not count.
\<close>

definition max_str_digits :: nat where
  "max_str_digits = 4300"

definition int_of_str :: "pystr \<Rightarrow> error + int" where
  "int_of_str s =
     (let t = strip s;
          neg = (t \<noteq> [] \<and> hd t = 45);
          body = (if t \<noteq> [] \<and> (hd t = 45 \<or> hd t = 43) then tl t else t)
      in case parse_digits 0 False body of
           None \<Rightarrow> Inl ValueError
         | Some v \<Rightarrow>
             if max_str_digits < length (digits_of body) then Inl ValueError
             else Inr (if neg then - v else v))"

fun py_int :: "pyval \<Rightarrow> error + int" where
  "py_int PNone = Inl TypeError"
| "py_int (PInt i) = Inr i"
| "py_int (PStr s) = int_of_str s"

section \<open>seller.price_conversion\<close>

text \<open>\<^verbatim>\<open>s.split(sep)\<close> for a separator of one character.\<close>

fun split_on :: "nat \<Rightarrow> pystr \<Rightarrow> pystr list" where
  "split_on sep [] = [[]]"
| "split_on sep (c # cs) =
     (if c = sep then [] # split_on sep cs
      else (case split_on sep cs of
              [] \<Rightarrow> [[c]]
            | p # ps \<Rightarrow> (c # p) # ps))"

text \<open>\<^verbatim>\<open>re.sub("[^0-9]", "", s)\<close>: every character outside \<open>0\<close> to \<open>9\<close> is removed.\<close>

definition sub_non_digits :: "pystr \<Rightarrow> pystr" where
  "sub_non_digits s = filter (\<lambda>c. 48 \<le> c \<and> c \<le> 57) s"

text \<open>
  \<^verbatim>\<open>return re.sub("[^0-9]", "", price.split(".")[0])\<close>. A value that is not a string
  has no \<^verbatim>\<open>split\<close>: \<open>AttributeError\<close>.
\<close>

fun price_conversion :: "pyval \<Rightarrow> error + pystr" where
  "price_conversion (PStr price) =
     (case split_on 46 price of
        [] \<Rightarrow> Inl IndexError
      | p # _ \<Rightarrow> Inr (sub_non_digits p))"
| "price_conversion _ = Inl AttributeError"


section \<open>seller.divide\<close>

text \<open>
  \<^verbatim>\<open>range(0, stop, step)\<close> for a positive step: the multiples of the step below \<open>stop\<close>.
\<close>

definition range0 :: "nat \<Rightarrow> nat \<Rightarrow> nat list" where
  "range0 stop step = map (\<lambda>k. k * step) [0 ..< (stop + step - 1) div step]"

text \<open>
  \<^verbatim>\<open>for i in range(0, len(lst), n): yield lst[i: i + n]\<close>, consumed by \<^verbatim>\<open>list(...)\<close>
  as every caller does. A zero step makes \<^verbatim>\<open>range\<close> raise \<open>ValueError\<close>; a negative step
  gives an empty range.
\<close>

definition divide :: "'a list \<Rightarrow> int \<Rightarrow> error + 'a list list" where
  "divide lst n =
     (if n = 0 then Inl ValueError
      else if n < 0 then Inr []
      else Inr (map (\<lambda>i. take (nat n) (drop i lst)) (range0 (length lst) (nat n))))"

section \<open>Reconciliation\<close>

text \<open>
  The quantity of a matched row (seller.py lines 198 to 204, market.py lines 178 to 184):
  the two special tokens are compared with \<^verbatim>\<open>str\<close> of the cell, the general case
  applies \<^verbatim>\<open>int\<close> to the cell itself.
\<close>

definition stock_count :: "pydict \<Rightarrow> error + int" where
  "stock_count watch =
     (let count = py_str (dict_get watch key_quantity)
      in if count = lit ''>10'' then Inr 100
         else if count = lit ''1'' then Inr 0
         else py_int (dict_get watch key_quantity))"

definition code_of :: "pydict \<Rightarrow> pyval" where
  "code_of watch = PStr (py_str (dict_get watch key_code))"

subsection \<open>seller.create_stocks and seller.create_prices (OZON)\<close>

record ozon_stock =
  offer_id :: pyval
  stock :: int

record ozon_price =
  auto_action_enabled :: pystr
  currency_code :: pystr
  price_offer_id :: pyval
  old_price :: pystr
  price :: pystr

text \<open>
  The first loop of \<^verbatim>\<open>create_stocks\<close>. The list \<open>offer_ids\<close> is the caller's list
  object: \<^verbatim>\<open>offer_ids.remove(x)\<close> deletes the first occurrence in place, so the
  function returns its final contents next to the outcome.
\<close>

fun seller_match_loop ::
  "pydict list \<Rightarrow> ozon_stock list \<Rightarrow> pyval list \<Rightarrow> (error + ozon_stock list) \<times> pyval list"
where
  "seller_match_loop [] stocks offer_ids = (Inr stocks, offer_ids)"
| "seller_match_loop (watch # rest) stocks offer_ids =
     (if code_of watch \<in> set offer_ids then
        (case stock_count watch of
           Inl e \<Rightarrow> (Inl e, offer_ids)
         | Inr n \<Rightarrow>
             seller_match_loop rest
               (stocks @ [\<lparr>offer_id = code_of watch, stock = n\<rparr>])
               (remove1 (code_of watch) offer_ids))
      else seller_match_loop rest stocks offer_ids)"

definition seller_create_stocks ::
  "pydict list \<Rightarrow> pyval list \<Rightarrow> (error + ozon_stock list) \<times> pyval list"
where
  "seller_create_stocks watch_remnants offer_ids =
     (case seller_match_loop watch_remnants [] offer_ids of
        (Inl e, ids) \<Rightarrow> (Inl e, ids)
      | (Inr stocks, ids) \<Rightarrow>
          (Inr (stocks @ map (\<lambda>i. \<lparr>offer_id = i, stock = 0\<rparr>) ids), ids))"

fun seller_price_loop ::
  "pydict list \<Rightarrow> ozon_price list \<Rightarrow> pyval list \<Rightarrow> error + ozon_price list"
where
  "seller_price_loop [] prices offer_ids = Inr prices"
| "seller_price_loop (watch # rest) prices offer_ids =
     (if code_of watch \<in> set offer_ids then
        (case price_conversion (dict_get watch key_price) of
           Inl e \<Rightarrow> Inl e
         | Inr p \<Rightarrow>
             seller_price_loop rest
               (prices @ [\<lparr>auto_action_enabled = lit ''UNKNOWN'', currency_code = lit ''RUB'',
                            price_offer_id = code_of watch, old_price = lit ''0'',
                            price = p\<rparr>])
               offer_ids)
      else seller_price_loop rest prices offer_ids)"

definition seller_create_prices :: "pydict list \<Rightarrow> pyval list \<Rightarrow> error + ozon_price list" where
  "seller_create_prices watch_remnants offer_ids = seller_price_loop watch_remnants [] offer_ids"

subsection \<open>market.create_stocks and market.create_prices (Yandex Market)\<close>

record market_item =
  count :: int
  item_type :: pystr
  updatedAt :: pystr

record market_stock =
  sku :: pyval
  warehouseId :: pyval
  items :: "market_item list"

record market_price_body =
  price_value :: int
  currencyId :: pystr

record market_price =
  price_id :: pyval
  price_body :: market_price_body

text \<open>
  \<open>date\<close> is the text that line 174 builds from the clock,
  \<^verbatim>\<open>str(datetime.datetime.utcnow().replace(microsecond=0).isoformat() + "Z")\<close>,
  before the loop starts; the clock is read nowhere else.
\<close>

fun market_match_loop ::
  "pystr \<Rightarrow> pyval \<Rightarrow> pydict list \<Rightarrow> market_stock list \<Rightarrow> pyval list
     \<Rightarrow> (error + market_stock list) \<times> pyval list"
where
  "market_match_loop date warehouse_id [] stocks offer_ids = (Inr stocks, offer_ids)"
| "market_match_loop date warehouse_id (watch # rest) stocks offer_ids =
     (if code_of watch \<in> set offer_ids then
        (case stock_count watch of
           Inl e \<Rightarrow> (Inl e, offer_ids)
         | Inr n \<Rightarrow>
             market_match_loop date warehouse_id rest
               (stocks @ [\<lparr>sku = code_of watch, warehouseId = warehouse_id,
                            items = [\<lparr>count = n, item_type = lit ''FIT'', updatedAt = date\<rparr>]\<rparr>])
               (remove1 (code_of watch) offer_ids))
      else market_match_loop date warehouse_id rest stocks offer_ids)"

definition market_create_stocks ::
  "pystr \<Rightarrow> pydict list \<Rightarrow> pyval list \<Rightarrow> pyval \<Rightarrow> (error + market_stock list) \<times> pyval list"
where
  "market_create_stocks date watch_remnants offer_ids warehouse_id =
     (case market_match_loop date warehouse_id watch_remnants [] offer_ids of
        (Inl e, ids) \<Rightarrow> (Inl e, ids)
      | (Inr stocks, ids) \<Rightarrow>
          (Inr (stocks @
                map (\<lambda>i. \<lparr>sku = i, warehouseId = warehouse_id,
                            items = [\<lparr>count = 0, item_type = lit ''FIT'', updatedAt = date\<rparr>]\<rparr>)
                    ids),
           ids))"

fun market_price_loop ::
  "pydict list \<Rightarrow> market_price list \<Rightarrow> pyval list \<Rightarrow> error + market_price list"
where
  "market_price_loop [] prices offer_ids = Inr prices"
| "market_price_loop (watch # rest) prices offer_ids =
     (if code_of watch \<in> set offer_ids then
        (case price_conversion (dict_get watch key_price) of
           Inl e \<Rightarrow> Inl e
         | Inr p \<Rightarrow>
             (case int_of_str p of
                Inl e \<Rightarrow> Inl e
              | Inr v \<Rightarrow>
                  market_price_loop rest
                    (prices @ [\<lparr>price_id = code_of watch,
                                 price_body = \<lparr>price_value = v, currencyId = lit ''RUR''\<rparr>\<rparr>])
                    offer_ids))
      else market_price_loop rest prices offer_ids)"

definition market_create_prices :: "pydict list \<Rightarrow> pyval list \<Rightarrow> error + market_price list" where
  "market_create_prices watch_remnants offer_ids = market_price_loop watch_remnants [] offer_ids"

section \<open>The marketplaces as an environment\<close>

text \<open>
  Every network call goes to a server whose state the program does not see. A server is
  modelled as a state of some type \<open>'s\<close> with one transition function per endpoint: the
  function takes the request and the state, and returns the outcome of the call (the
  exception that \<^verbatim>\<open>raise_for_status\<close> or the transport raises, or the decoded answer)
  with the next state. The credentials are fixed and left out. No caller looks at the
  answer of an update call, so it is \<open>unit\<close>. \<open>download_stock_ep\<close> stands for
  seller.download_stock, the source of the feed, and \<open>utcnow\<close> for the clock, read as the
  text that market.create_stocks builds from it.
\<close>

record ozon_page =
  page_items :: "pydict list option"
  total :: pyval
  last_id :: pyval

record 's ozon_env =
  product_list_ep :: "pyval \<Rightarrow> 's \<Rightarrow> (error + ozon_page option) \<times> 's"
  import_stocks_ep :: "ozon_stock list \<Rightarrow> 's \<Rightarrow> (error + unit) \<times> 's"
  import_prices_ep :: "ozon_price list \<Rightarrow> 's \<Rightarrow> (error + unit) \<times> 's"
  download_stock_ep :: "'s \<Rightarrow> (error + pydict list) \<times> 's"

record market_paging =
  nextPageToken :: pyval

record market_entry =
  offer :: "pydict option"

record market_page =
  offerMappingEntries :: "market_entry list option"
  paging :: "market_paging option"

record 's market_env =
  offer_mapping_ep :: "pystr \<Rightarrow> pyval \<Rightarrow> 's \<Rightarrow> (error + market_page option) \<times> 's"
  put_stocks_ep :: "pystr \<Rightarrow> market_stock list \<Rightarrow> 's \<Rightarrow> (error + unit) \<times> 's"
  post_prices_ep :: "pystr \<Rightarrow> market_price list \<Rightarrow> 's \<Rightarrow> (error + unit) \<times> 's"
  utcnow :: "'s \<Rightarrow> pystr"

section \<open>The catalog pagers\<close>

text \<open>
  seller.get_offer_ids, the \<^verbatim>\<open>while True\<close> loop (lines 71 to 77). \<open>None\<close> is the
  loop that never ends. \<^verbatim>\<open>get_product_list\<close> returns \<^verbatim>\<open>response_object.get("result")\<close>,
  which may be \<open>None\<close> (then \<^verbatim>\<open>some_prod.get\<close> raises \<open>AttributeError\<close>), and
  \<^verbatim>\<open>extend(None)\<close> raises \<open>TypeError\<close>.
\<close>

partial_function (option) seller_page_loop ::
  "'s ozon_env \<Rightarrow> pyval \<Rightarrow> pydict list \<Rightarrow> 's \<Rightarrow> ((error + pydict list) \<times> 's) option"
where
  "seller_page_loop env lid product_list s =
     (case product_list_ep env lid s of
        (Inl e, s1) \<Rightarrow> Some (Inl e, s1)
      | (Inr None, s1) \<Rightarrow> Some (Inl AttributeError, s1)
      | (Inr (Some some_prod), s1) \<Rightarrow>
          (case page_items some_prod of
             None \<Rightarrow> Some (Inl TypeError, s1)
           | Some its \<Rightarrow>
               if total some_prod = PInt (int (length (product_list @ its)))
               then Some (Inr (product_list @ its), s1)
               else seller_page_loop env (last_id some_prod) (product_list @ its) s1))"

definition seller_get_offer_ids :: "'s ozon_env \<Rightarrow> 's \<Rightarrow> ((error + pyval list) \<times> 's) option" where
  "seller_get_offer_ids env s =
     (case seller_page_loop env (PStr []) [] s of
        None \<Rightarrow> None
      | Some (Inl e, s1) \<Rightarrow> Some (Inl e, s1)
      | Some (Inr product_list, s1) \<Rightarrow>
          Some (Inr (map (\<lambda>product. dict_get product (lit ''offer_id'')) product_list), s1))"

text \<open>\<^verbatim>\<open>not page\<close>: the values that count as false.\<close>

fun falsy :: "pyval \<Rightarrow> bool" where
  "falsy PNone = True"
| "falsy (PInt i) = (i = 0)"
| "falsy (PStr t) = (t = [])"

text \<open>market.get_offer_ids, the loop of lines 136 to 141.\<close>

partial_function (option) market_page_loop ::
  "'s market_env \<Rightarrow> pystr \<Rightarrow> pyval \<Rightarrow> market_entry list \<Rightarrow> 's
     \<Rightarrow> ((error + market_entry list) \<times> 's) option"
where
  "market_page_loop env campaign_id page product_list s =
     (case offer_mapping_ep env campaign_id page s of
        (Inl e, s1) \<Rightarrow> Some (Inl e, s1)
      | (Inr None, s1) \<Rightarrow> Some (Inl AttributeError, s1)
      | (Inr (Some some_prod), s1) \<Rightarrow>
          (case offerMappingEntries some_prod of
             None \<Rightarrow> Some (Inl TypeError, s1)
           | Some entries \<Rightarrow>
               (case paging some_prod of
                  None \<Rightarrow> Some (Inl AttributeError, s1)
                | Some pg \<Rightarrow>
                    if falsy (nextPageToken pg)
                    then Some (Inr (product_list @ entries), s1)
                    else market_page_loop env campaign_id (nextPageToken pg)
                           (product_list @ entries) s1)))"

text \<open>Lines 142 to 145: \<^verbatim>\<open>product.get("offer").get("shopSku")\<close> for each entry.\<close>

fun shop_skus :: "market_entry list \<Rightarrow> pyval list \<Rightarrow> error + pyval list" where
  "shop_skus [] offer_ids = Inr offer_ids"
| "shop_skus (product # rest) offer_ids =
     (case offer product of
        None \<Rightarrow> Inl AttributeError
      | Some d \<Rightarrow> shop_skus rest (offer_ids @ [dict_get d (lit ''shopSku'')]))"

definition market_get_offer_ids ::
  "'s market_env \<Rightarrow> pystr \<Rightarrow> 's \<Rightarrow> ((error + pyval list) \<times> 's) option"
where
  "market_get_offer_ids env campaign_id s =
     (case market_page_loop env campaign_id (PStr []) [] s of
        None \<Rightarrow> None
      | Some (Inl e, s1) \<Rightarrow> Some (Inl e, s1)
      | Some (Inr product_list, s1) \<Rightarrow> Some (shop_skus product_list [], s1))"

section \<open>Uploading\<close>

text \<open>
  \<^verbatim>\<open>for chunk in list(divide(records, n)): update(chunk, ...)\<close>: the calls are made one
  after the other, and the first exception leaves the loop.
\<close>

fun upload_loop ::
  "('c \<Rightarrow> 's \<Rightarrow> (error + unit) \<times> 's) \<Rightarrow> 'c list \<Rightarrow> 's \<Rightarrow> (error + unit) \<times> 's"
where
  "upload_loop update [] s = (Inr (), s)"
| "upload_loop update (chunk # rest) s =
     (case update chunk s of
        (Inl e, s1) \<Rightarrow> (Inl e, s1)
      | (Inr u, s1) \<Rightarrow> upload_loop update rest s1)"

definition upload_all ::
  "('r list \<Rightarrow> 's \<Rightarrow> (error + unit) \<times> 's) \<Rightarrow> 'r list \<Rightarrow> int \<Rightarrow> 's \<Rightarrow> (error + unit) \<times> 's"
where
  "upload_all update records n s =
     (case divide records n of
        Inl e \<Rightarrow> (Inl e, s)
      | Inr chunks \<Rightarrow> upload_loop update chunks s)"

text \<open>seller.upload_prices and seller.upload_stocks (the bodies of the coroutines).\<close>

definition seller_upload_prices ::
  "'s ozon_env \<Rightarrow> pydict list \<Rightarrow> 's \<Rightarrow> ((error + ozon_price list) \<times> 's) option"
where
  "seller_upload_prices env watch_remnants s =
     (case seller_get_offer_ids env s of
        None \<Rightarrow> None
      | Some (Inl e, s1) \<Rightarrow> Some (Inl e, s1)
      | Some (Inr offer_ids, s1) \<Rightarrow>
          (case seller_create_prices watch_remnants offer_ids of
             Inl e \<Rightarrow> Some (Inl e, s1)
           | Inr prices \<Rightarrow>
               (case upload_all (import_prices_ep env) prices 1000 s1 of
                  (Inl e, s2) \<Rightarrow> Some (Inl e, s2)
                | (Inr u, s2) \<Rightarrow> Some (Inr prices, s2))))"

definition seller_upload_stocks ::
  "'s ozon_env \<Rightarrow> pydict list \<Rightarrow> 's
     \<Rightarrow> ((error + ozon_stock list \<times> ozon_stock list) \<times> 's) option"
where
  "seller_upload_stocks env watch_remnants s =
     (case seller_get_offer_ids env s of
        None \<Rightarrow> None
      | Some (Inl e, s1) \<Rightarrow> Some (Inl e, s1)
      | Some (Inr offer_ids, s1) \<Rightarrow>
          (case seller_create_stocks watch_remnants offer_ids of
             (Inl e, ids) \<Rightarrow> Some (Inl e, s1)
           | (Inr stocks, ids) \<Rightarrow>
               (case upload_all (import_stocks_ep env) stocks 100 s1 of
                  (Inl e, s2) \<Rightarrow> Some (Inl e, s2)
                | (Inr u, s2) \<Rightarrow>
                    Some (Inr (filter (\<lambda>r. stock r \<noteq> 0) stocks, stocks), s2))))"

text \<open>
  seller.main, lines 324 to 340: every exception is caught and printed. The result is
  the exception that was caught, if any, and the state of the server at the end.
\<close>

definition seller_main :: "'s ozon_env \<Rightarrow> 's \<Rightarrow> (error option \<times> 's) option" where
  "seller_main env s =
     (case seller_get_offer_ids env s of
        None \<Rightarrow> None
      | Some (Inl e, s1) \<Rightarrow> Some (Some e, s1)
      | Some (Inr offer_ids, s1) \<Rightarrow>
          (case download_stock_ep env s1 of
             (Inl e, s2) \<Rightarrow> Some (Some e, s2)
           | (Inr watch_remnants, s2) \<Rightarrow>
               (case seller_create_stocks watch_remnants offer_ids of
                  (Inl e, ids) \<Rightarrow> Some (Some e, s2)
                | (Inr stocks, ids) \<Rightarrow>
                    (case upload_all (import_stocks_ep env) stocks 100 s2 of
                       (Inl e, s3) \<Rightarrow> Some (Some e, s3)
                     | (Inr u, s3) \<Rightarrow>
                         (case seller_create_prices watch_remnants ids of
                            Inl e \<Rightarrow> Some (Some e, s3)
                          | Inr prices \<Rightarrow>
                              (case upload_all (import_prices_ep env) prices 900 s3 of
                                 (Inl e, s4) \<Rightarrow> Some (Some e, s4)
                               | (Inr u, s4) \<Rightarrow> Some (None, s4)))))))"

text \<open>
  \<^verbatim>\<open>filter(lambda stock: (stock.get("items")[0].get("count") != 0), stocks)\<close>; the index
  \<open>[0]\<close> raises \<open>IndexError\<close> on a record without items.
\<close>

fun market_not_empty :: "market_stock list \<Rightarrow> error + market_stock list" where
  "market_not_empty [] = Inr []"
| "market_not_empty (r # rest) =
     (case items r of
        [] \<Rightarrow> Inl IndexError
      | it # _ \<Rightarrow>
          (case market_not_empty rest of
             Inl e \<Rightarrow> Inl e
           | Inr ys \<Rightarrow> Inr (if count it \<noteq> 0 then r # ys else ys)))"

text \<open>market.upload_prices and market.upload_stocks (the bodies of the coroutines).\<close>

definition market_upload_prices ::
  "'s market_env \<Rightarrow> pydict list \<Rightarrow> pystr \<Rightarrow> 's \<Rightarrow> ((error + market_price list) \<times> 's) option"
where
  "market_upload_prices env watch_remnants campaign_id s =
     (case market_get_offer_ids env campaign_id s of
        None \<Rightarrow> None
      | Some (Inl e, s1) \<Rightarrow> Some (Inl e, s1)
      | Some (Inr offer_ids, s1) \<Rightarrow>
          (case market_create_prices watch_remnants offer_ids of
             Inl e \<Rightarrow> Some (Inl e, s1)
           | Inr prices \<Rightarrow>
               (case upload_all (post_prices_ep env campaign_id) prices 500 s1 of
                  (Inl e, s2) \<Rightarrow> Some (Inl e, s2)
                | (Inr u, s2) \<Rightarrow> Some (Inr prices, s2))))"

definition market_upload_stocks ::
  "'s market_env \<Rightarrow> pydict list \<Rightarrow> pystr \<Rightarrow> pyval \<Rightarrow> 's
     \<Rightarrow> ((error + market_stock list \<times> market_stock list) \<times> 's) option"
where
  "market_upload_stocks env watch_remnants campaign_id warehouse_id s =
     (case market_get_offer_ids env campaign_id s of
        None \<Rightarrow> None
      | Some (Inl e, s1) \<Rightarrow> Some (Inl e, s1)
      | Some (Inr offer_ids, s1) \<Rightarrow>
          (case market_create_stocks (utcnow env s1) watch_remnants offer_ids warehouse_id of
             (Inl e, ids) \<Rightarrow> Some (Inl e, s1)
           | (Inr stocks, ids) \<Rightarrow>
               (case upload_all (put_stocks_ep env campaign_id) stocks 2000 s1 of
                  (Inl e, s2) \<Rightarrow> Some (Inl e, s2)
                | (Inr u, s2) \<Rightarrow>
                    (case market_not_empty stocks of
                       Inl e \<Rightarrow> Some (Inl e, s2)
                     | Inr not_empty \<Rightarrow> Some (Inr (not_empty, stocks), s2)))))"

section \<open>Reading a token as a decimal numeral\<close>

text \<open>
  What "parsed as a base-10 integer" means, stated without the parser above. A sequence
  of digits denotes a number in base 10. The body of a numeral consists of digits and
  underscores, begins and ends with a digit and has no two underscores in a row. A text
  is a decimal numeral for \<open>v\<close> when it is such a body, with at most \<open>max_str_digits\<close>
  digits, after an optional sign \<open>+\<close> or \<open>-\<close>, with blanks and nothing else before and
  after, and \<open>v\<close> is the number the digits denote, negated after \<open>-\<close>.
\<close>

definition base10 :: "nat list \<Rightarrow> int" where
  "base10 ds = foldl (\<lambda>a d. 10 * a + int d) 0 ds"

fun single_underscores :: "pystr \<Rightarrow> bool" where
  "single_underscores (a # b # cs) = (\<not> (a = 95 \<and> b = 95) \<and> single_underscores (b # cs))"
| "single_underscores cs = True"

definition digit_body :: "pystr \<Rightarrow> bool" where
  "digit_body b \<longleftrightarrow>
     b \<noteq> [] \<and> (\<forall>c \<in> set b. digit_val c \<noteq> None \<or> c = 95)
     \<and> hd b \<noteq> 95 \<and> last b \<noteq> 95 \<and> single_underscores b"

definition decimal_numeral :: "pystr \<Rightarrow> int \<Rightarrow> bool" where
  "decimal_numeral t v \<longleftrightarrow>
     (\<exists>pre sgn b post.
        t = pre @ sgn @ b @ post
        \<and> (\<forall>c \<in> set pre. is_space c) \<and> (\<forall>c \<in> set post. is_space c)
        \<and> (sgn = [] \<or> sgn = [43] \<or> sgn = [45])
        \<and> digit_body b \<and> length (digits_of b) \<le> max_str_digits
        \<and> v = (if sgn = [45] then - base10 (digits_of b) else base10 (digits_of b)))"

section \<open>Auxiliary notions for the statements\<close>

text \<open>
  The Yandex Market record that lines 185 to 197 of market.py build for the identifier
  and the count that line 205 of seller.py puts into an OZON record.
\<close>

definition to_market :: "pystr \<Rightarrow> pyval \<Rightarrow> ozon_stock \<Rightarrow> market_stock" where
  "to_market date warehouse_id r =
     \<lparr>sku = offer_id r, warehouseId = warehouse_id,
      items = [\<lparr>count = stock r, item_type = lit ''FIT'', updatedAt = date\<rparr>]\<rparr>"

text \<open>A stock record with its timestamps replaced: records are compared modulo the date.\<close>

definition with_date :: "pystr \<Rightarrow> market_stock \<Rightarrow> market_stock" where
  "with_date d r = r\<lparr>items := map (\<lambda>it. it\<lparr>updatedAt := d\<rparr>) (items r)\<rparr>"

section \<open>A running example\<close>

text \<open>
  The scenario of the specification: the catalog holds \<open>A\<close>, \<open>B\<close> and \<open>C\<close>; the feed has
  a row for \<open>A\<close> with quantity \<open>">10"\<close> and price \<open>"100.00 r"\<close>, and a row for \<open>B\<close> with
  quantity \<open>"1"\<close> and price \<open>"50.00 r"\<close> (the last letter is the Cyrillic one, 0x440).
  \<open>row_Z\<close> is a row whose code is not in the catalog and whose cells are malformed.
\<close>

definition row_A :: pydict where
  "row_A = [key_code \<mapsto> PStr (lit ''A''), key_quantity \<mapsto> PStr (lit ''>10''),
            key_price \<mapsto> PStr (lit ''100.00 '' @ [0x440])]"

definition row_B :: pydict where
  "row_B = [key_code \<mapsto> PStr (lit ''B''), key_quantity \<mapsto> PStr (lit ''1''),
            key_price \<mapsto> PStr (lit ''50.00 '' @ [0x440])]"

definition row_Z :: pydict where
  "row_Z = [key_code \<mapsto> PStr (lit ''Z''), key_quantity \<mapsto> PStr (lit ''abc''),
            key_price \<mapsto> PNone]"

definition example_feed :: "pydict list" where
  "example_feed = [row_A, row_B]"

definition example_catalog :: "pyval list" where
  "example_catalog = [PStr (lit ''A''), PStr (lit ''B''), PStr (lit ''C'')]"

section \<open>Observing the calls\<close>


text \<open>
  An OZON account for the running example: the catalog fits on one page, every call
  succeeds, and the state is the list of the calls received.
\<close>

datatype ozon_call =
  ListCall pyval
  | DownloadCall
  | StocksCall "ozon_stock list"
  | PricesCall "ozon_price list"

definition example_page :: ozon_page where
  "example_page =
     \<lparr>page_items = Some [[lit ''offer_id'' \<mapsto> PStr (lit ''A'')],
                         [lit ''offer_id'' \<mapsto> PStr (lit ''B'')],
                         [lit ''offer_id'' \<mapsto> PStr (lit ''C'')]],
      total = PInt 3, last_id = PStr []\<rparr>"

definition example_env :: "ozon_call list ozon_env" where
  "example_env =
     \<lparr>product_list_ep = (\<lambda>lid s. (Inr (Some example_page), s @ [ListCall lid])),
      import_stocks_ep = (\<lambda>chunk s. (Inr (), s @ [StocksCall chunk])),
      import_prices_ep = (\<lambda>chunk s. (Inr (), s @ [PricesCall chunk])),
      download_stock_ep = (\<lambda>s. (Inr example_feed, s @ [DownloadCall]))\<rparr>"

text \<open>The same account when the answers leave the total out.\<close>

definition no_total_env :: "ozon_call list ozon_env" where
  "no_total_env =
     example_env\<lparr>product_list_ep :=
       (\<lambda>lid s. (Inr (Some (example_page\<lparr>total := PNone\<rparr>)), s @ [ListCall lid]))\<rparr>"

text \<open>The same account when every listing request is answered with an HTTP error.\<close>

definition err_env :: "ozon_call list ozon_env" where
  "err_env =
     example_env\<lparr>product_list_ep := (\<lambda>lid s. (Inl HTTPError, s @ [ListCall lid]))\<rparr>"

section \<open>The passes of the OZON pager\<close>

text \<open>
  The loop variables of seller.get_offer_ids: \<open>last_id\<close>, \<open>product_list\<close> and the state of
  the server. \<open>page_step\<close> is one pass through the body of the loop (lines 72 to 77): it
  either leaves the loop with an outcome (\<open>Inl\<close>) or gives the variables of the next pass.
\<close>

type_synonym 's pager_vars = "pyval \<times> pydict list \<times> 's"

definition page_step ::
  "'s ozon_env \<Rightarrow> 's pager_vars \<Rightarrow> ((error + pydict list) \<times> 's) + 's pager_vars"
where
  "page_step env v =
     (case v of (lid, product_list, s) \<Rightarrow>
        (case product_list_ep env lid s of
           (Inl e, s1) \<Rightarrow> Inl (Inl e, s1)
         | (Inr None, s1) \<Rightarrow> Inl (Inl AttributeError, s1)
         | (Inr (Some some_prod), s1) \<Rightarrow>
             (case page_items some_prod of
                None \<Rightarrow> Inl (Inl TypeError, s1)
              | Some its \<Rightarrow>
                  if total some_prod = PInt (int (length (product_list @ its)))
                  then Inl (Inr (product_list @ its), s1)
                  else Inr (last_id some_prod, product_list @ its, s1))))"

fun run_passes ::
  "'s ozon_env \<Rightarrow> nat \<Rightarrow> 's pager_vars \<Rightarrow> ((error + pydict list) \<times> 's) + 's pager_vars"
where
  "run_passes env 0 v = Inr v"
| "run_passes env (Suc k) v =
     (case page_step env v of Inl r \<Rightarrow> Inl r | Inr v' \<Rightarrow> run_passes env k v')"

text \<open>
  The variables after one more page has been fetched and appended (whatever the test of
  line 76 says), the total that this page reports, and the variables after \<open>k\<close> pages.
  They describe the passes of the loop as long as every request is answered.
\<close>

definition next_vars :: "'s ozon_env \<Rightarrow> 's pager_vars \<Rightarrow> 's pager_vars" where
  "next_vars env v =
     (case v of (lid, product_list, s) \<Rightarrow>
        (case product_list_ep env lid s of
           (Inr (Some some_prod), s1) \<Rightarrow>
             (last_id some_prod,
              product_list @ (case page_items some_prod of Some its \<Rightarrow> its | None \<Rightarrow> []),
              s1)
         | (_, s1) \<Rightarrow> (lid, product_list, s1)))"

definition reported_total :: "'s ozon_env \<Rightarrow> 's pager_vars \<Rightarrow> pyval" where
  "reported_total env v =
     (case v of (lid, product_list, s) \<Rightarrow>
        (case product_list_ep env lid s of
           (Inr (Some some_prod), s1) \<Rightarrow> total some_prod
         | _ \<Rightarrow> PNone))"

definition vars_after :: "'s ozon_env \<Rightarrow> 's \<Rightarrow> nat \<Rightarrow> 's pager_vars" where
  "vars_after env s k = (next_vars env ^^ k) (PStr [], [], s)"

text \<open>
  The items accumulated after \<open>k\<close> pages, and the test of line 76 in pass \<open>k\<close> (counted
  from 0): the total reported by the page just fetched equals the number of items
  accumulated so far, that page included.
\<close>

definition accumulated :: "'s ozon_env \<Rightarrow> 's \<Rightarrow> nat \<Rightarrow> pydict list" where
  "accumulated env s k = fst (snd (vars_after env s k))"

definition count_is_total :: "'s ozon_env \<Rightarrow> 's \<Rightarrow> nat \<Rightarrow> bool" where
  "count_is_total env s k \<longleftrightarrow>
     reported_total env (vars_after env s k) = PInt (int (length (accumulated env s (Suc k))))"

text \<open>
  A request is answered when the endpoint returns a page that has a list of items; pass
  \<open>k\<close> is answered when its request is. A request that is not answered makes the loop
  raise: the exception of the call, \<open>AttributeError\<close> for a missing result, \<open>TypeError\<close>
  for missing items.
\<close>

definition page_ok :: "'s ozon_env \<Rightarrow> 's pager_vars \<Rightarrow> bool" where
  "page_ok env v =
     (case v of (lid, product_list, s) \<Rightarrow>
        (case product_list_ep env lid s of
           (Inr (Some some_prod), s1) \<Rightarrow> page_items some_prod \<noteq> None
         | _ \<Rightarrow> False))"

definition answered :: "'s ozon_env \<Rightarrow> 's \<Rightarrow> nat \<Rightarrow> bool" where
  "answered env s k = page_ok env (vars_after env s k)"

section \<open>Lemmas on the builtins\<close>

lemma digit_val_underscore: "digit_val 95 = None"
  by (simp add: digit_val_def)

lemma digit_val_sign: "digit_val 45 = None" "digit_val 43 = None"
  by (simp_all add: digit_val_def)

lemma nd_zeros_miss_space:
  assumes "uni_space c"
  shows "\<forall>z \<in> set nd_zeros. \<not> (z \<le> c \<and> c < z + 10)"
proof -
  from assms consider "c = 0x85" | "c = 0xA0" | "c = 0x1680" | "c = 0x2028" | "c = 0x2029"
    | "c = 0x202F" | "c = 0x205F" | "c = 0x3000" | "0x2000 \<le> c \<and> c \<le> 0x200A"
    unfolding uni_space_def by blast
  then show ?thesis
    by cases (simp_all add: nd_zeros_def)
qed

lemma digit_val_space: "is_space c \<Longrightarrow> digit_val c = None"
proof -
  assume a: "is_space c"
  show ?thesis
  proof (cases "c < 127")
    case True
    with a have "c \<in> {9, 10, 11, 12, 13, 32}" by (auto simp: is_space_def)
    then show ?thesis by (auto simp: digit_val_def)
  next
    case False
    with a have "uni_space c" by (auto simp: is_space_def)
    then have "find (\<lambda>z. z \<le> c \<and> c < z + 10) nd_zeros = None"
      using nd_zeros_miss_space by (simp add: find_None_iff)
    with False show ?thesis by (simp add: digit_val_def)
  qed
qed

lemma digits_of_Nil: "digits_of [] = []"
  by (simp add: digits_of_def map_filter_simps)

lemma digits_of_Cons:
  "digits_of (c # cs) = (case digit_val c of None \<Rightarrow> digits_of cs | Some d \<Rightarrow> d # digits_of cs)"
  by (simp add: digits_of_def map_filter_simps split: option.splits)

lemma digits_of_dropWhile: "digits_of (dropWhile is_space s) = digits_of s"
  by (induction s) (simp_all add: digits_of_Cons digit_val_space)

lemma digits_of_rev: "digits_of (rev s) = rev (digits_of s)"
  by (simp add: digits_of_def map_filter_def rev_map rev_filter)

lemma digits_of_strip: "digits_of (strip s) = digits_of s"
  by (simp add: strip_def digits_of_rev digits_of_dropWhile)

lemma foldl_base10_nonneg:
  "0 \<le> acc \<Longrightarrow> 0 \<le> foldl (\<lambda>a d. 10 * a + int d) acc ds"
  by (induction ds arbitrary: acc) simp_all

lemma parse_digits_value:
  "parse_digits acc pd cs = Some v \<Longrightarrow>
     v = foldl (\<lambda>a d. 10 * a + int d) acc (digits_of cs) \<and> (pd \<or> digits_of cs \<noteq> [])"
proof (induction cs arbitrary: acc pd)
  case Nil
  then show ?case by (simp add: digits_of_Nil split: if_splits)
next
  case (Cons c cs)
  show ?case
  proof (cases "digit_val c")
    case None
    with Cons.prems have c: "c = 95" "pd" and r: "parse_digits acc False cs = Some v"
      by (simp_all split: if_splits)
    from Cons.IH [OF r] None show ?thesis by (simp add: digits_of_Cons)
  next
    case (Some d)
    with Cons.prems have r: "parse_digits (10 * acc + int d) True cs = Some v" by simp
    from Cons.IH [OF r] Some show ?thesis by (simp add: digits_of_Cons)
  qed
qed

lemma int_of_str_error: "int_of_str s = Inl e \<Longrightarrow> e = ValueError"
  by (auto simp: int_of_str_def Let_def split: option.splits if_splits)

lemma int_of_str_value:
  assumes "int_of_str s = Inr v"
  shows "digits_of s \<noteq> [] \<and> \<bar>v\<bar> = base10 (digits_of s)"
proof -
  define t where "t = strip s"
  define body where "body = (if t \<noteq> [] \<and> (hd t = 45 \<or> hd t = 43) then tl t else t)"
  have db: "digits_of body = digits_of s"
  proof (cases "t \<noteq> [] \<and> (hd t = 45 \<or> hd t = 43)")
    case True
    then obtain c cs where t: "t = c # cs" and c: "c = 45 \<or> c = 43" by (cases t) auto
    then have "digits_of t = digits_of cs" by (auto simp: digits_of_Cons digit_val_sign)
    with True t show ?thesis by (simp add: body_def t_def [symmetric] digits_of_strip [of s, symmetric])
  next
    case False
    then have "body = t" by (auto simp: body_def)
    then show ?thesis by (simp add: t_def digits_of_strip)
  qed
  from assms obtain w where w: "parse_digits 0 False body = Some w" and v: "v = w \<or> v = - w"
    by (auto simp: int_of_str_def Let_def body_def t_def split: option.splits if_splits)
  from parse_digits_value [OF w] db
  have "w = base10 (digits_of s)" and ne: "digits_of s \<noteq> []" by (simp_all add: base10_def)
  moreover have "0 \<le> base10 (digits_of s)" by (simp add: base10_def foldl_base10_nonneg)
  ultimately show ?thesis using v by auto
qed






lemma foldl_base10_zero:
  "0 \<le> acc \<Longrightarrow> foldl (\<lambda>a d. 10 * a + int d) acc ds = 0 \<Longrightarrow> acc = 0 \<and> (\<forall>d \<in> set ds. d = 0)"
proof (induction ds arbitrary: acc)
  case Nil
  then show ?case by simp
next
  case (Cons d ds)
  have "0 \<le> 10 * acc + int d" using Cons.prems(1) by simp
  from Cons.IH [OF this] Cons.prems(2) have "10 * acc + int d = 0" "\<forall>x \<in> set ds. x = 0"
    by simp_all
  with Cons.prems(1) show ?case by auto
qed


section \<open>The parser and the decimal numerals\<close>

lemma single_underscores_digit:
  "c \<noteq> 95 \<Longrightarrow> single_underscores (c # cs) = single_underscores cs"
  by (cases cs) simp_all

lemma single_underscores_us:
  "single_underscores (95 # cs) = (cs = [] \<or> (hd cs \<noteq> 95 \<and> single_underscores cs))"
  by (cases cs) auto

lemma parse_digits_iff:
  "(parse_digits acc pd cs = Some v) =
     ((\<forall>c \<in> set cs. digit_val c \<noteq> None \<or> c = 95)
      \<and> (if cs = [] then pd else (hd cs = 95 \<longrightarrow> pd) \<and> last cs \<noteq> 95)
      \<and> single_underscores cs
      \<and> v = foldl (\<lambda>a d. 10 * a + int d) acc (digits_of cs))"
proof (induction cs arbitrary: acc pd)
  case Nil
  show ?case by (auto simp: digits_of_Nil)
next
  case (Cons c cs)
  show ?case
  proof (cases "digit_val c")
    case (Some d)
    then have c: "c \<noteq> 95" using digit_val_underscore by auto
    have "(parse_digits acc pd (c # cs) = Some v)
          = (parse_digits (10 * acc + int d) True cs = Some v)"
      using Some by simp
    also have "\<dots> = ((\<forall>c \<in> set cs. digit_val c \<noteq> None \<or> c = 95)
      \<and> (if cs = [] then True else (hd cs = 95 \<longrightarrow> True) \<and> last cs \<noteq> 95)
      \<and> single_underscores cs
      \<and> v = foldl (\<lambda>a d. 10 * a + int d) (10 * acc + int d) (digits_of cs))"
      by (rule Cons.IH)
    finally show ?thesis
      using Some c by (simp add: digits_of_Cons single_underscores_digit)
  next
    case None
    show ?thesis
    proof (cases "c = 95 \<and> pd")
      case True
      have "(parse_digits acc pd (c # cs) = Some v) = (parse_digits acc False cs = Some v)"
        using None True by simp
      also have "\<dots> = ((\<forall>c \<in> set cs. digit_val c \<noteq> None \<or> c = 95)
        \<and> (if cs = [] then False else (hd cs = 95 \<longrightarrow> False) \<and> last cs \<noteq> 95)
        \<and> single_underscores cs
        \<and> v = foldl (\<lambda>a d. 10 * a + int d) acc (digits_of cs))"
        by (rule Cons.IH)
      finally show ?thesis
        using None True by (auto simp: digits_of_Cons single_underscores_us)
    next
      case False
      then have "parse_digits acc pd (c # cs) = None" using None by auto
      moreover have "\<not> ((digit_val c \<noteq> None \<or> c = 95) \<and> (hd (c # cs) = 95 \<longrightarrow> pd))"
        using None False by auto
      ultimately show ?thesis by auto
    qed
  qed
qed

lemma parse_digits_body:
  "(parse_digits 0 False b = Some v) = (digit_body b \<and> v = base10 (digits_of b))"
  unfolding parse_digits_iff digit_body_def base10_def by auto

lemma strip_decomp:
  "\<exists>pre post. s = pre @ strip s @ post
     \<and> (\<forall>c \<in> set pre. is_space c) \<and> (\<forall>c \<in> set post. is_space c)"
proof -
  define d where "d = dropWhile is_space s"
  have 1: "s = takeWhile is_space s @ d" by (simp add: d_def)
  have "rev (takeWhile is_space (rev d) @ dropWhile is_space (rev d)) = rev (rev d)"
    by (simp only: takeWhile_dropWhile_id)
  then have "rev (dropWhile is_space (rev d)) @ rev (takeWhile is_space (rev d)) = d"
    by (simp only: rev_append rev_rev_ident)
  then have 2: "d = strip s @ rev (takeWhile is_space (rev d))"
    by (simp only: strip_def d_def)
  have 3: "\<forall>c \<in> set (takeWhile is_space s). is_space c"
    by (auto dest: set_takeWhileD)
  have 4: "\<forall>c \<in> set (rev (takeWhile is_space (rev d))). is_space c"
    by (auto dest: set_takeWhileD)
  from 1 2 have "s = takeWhile is_space s @ strip s @ rev (takeWhile is_space (rev d))"
    by simp
  with 3 4 show ?thesis by blast
qed

lemma dropWhile_all: "\<forall>c \<in> set xs. P c \<Longrightarrow> dropWhile P (xs @ ys) = dropWhile P ys"
  by (induction xs) simp_all

lemma strip_core:
  assumes "x \<noteq> []" and "\<not> is_space (hd x)" and "\<not> is_space (last x)"
    and "\<forall>c \<in> set pre. is_space c" and "\<forall>c \<in> set post. is_space c"
  shows "strip (pre @ x @ post) = x"
proof -
  have "dropWhile is_space (pre @ x @ post) = dropWhile is_space (x @ post)"
    using assms(4) by (rule dropWhile_all)
  also have "\<dots> = x @ post" using assms(1,2) by (cases x) simp_all
  finally have 1: "dropWhile is_space (pre @ x @ post) = x @ post" .
  have "dropWhile is_space (rev (x @ post)) = dropWhile is_space (rev post @ rev x)" by simp
  also have "\<dots> = dropWhile is_space (rev x)"
    using assms(5) by (intro dropWhile_all) simp
  also have "\<dots> = rev x"
  proof -
    have "rev x \<noteq> []" using assms(1) by simp
    moreover have "\<not> is_space (hd (rev x))" using assms(1,3) by (simp add: hd_rev)
    ultimately show ?thesis by (cases "rev x") simp_all
  qed
  finally show ?thesis by (simp add: strip_def 1)
qed

lemma sign_not_space: "\<not> is_space 45" "\<not> is_space 43"
  by (simp_all add: is_space_def)

lemma digit_not_space: "digit_val c \<noteq> None \<Longrightarrow> \<not> is_space c"
  using digit_val_space by auto

lemma digit_body_ends:
  assumes "digit_body b"
  shows "b \<noteq> []" "digit_val (hd b) \<noteq> None" "digit_val (last b) \<noteq> None"
proof -
  from assms show ne: "b \<noteq> []" by (simp add: digit_body_def)
  from ne have "hd b \<in> set b" "last b \<in> set b" by simp_all
  with assms show "digit_val (hd b) \<noteq> None" "digit_val (last b) \<noteq> None"
    by (auto simp: digit_body_def)
qed

lemma int_of_str_iff: "(int_of_str t = Inr v) = decimal_numeral t v"
proof
  assume a: "int_of_str t = Inr v"
  define s where "s = strip t"
  define body where "body = (if s \<noteq> [] \<and> (hd s = 45 \<or> hd s = 43) then tl s else s)"
  from a obtain w where w: "parse_digits 0 False body = Some w"
    and lim: "length (digits_of body) \<le> max_str_digits"
    and v: "v = (if s \<noteq> [] \<and> hd s = 45 then - w else w)"
    by (auto simp: int_of_str_def Let_def body_def s_def split: option.splits if_splits)
  from w have b: "digit_body body" and wv: "w = base10 (digits_of body)"
    by (simp_all add: parse_digits_body)
  obtain pre post where d: "t = pre @ s @ post"
    "\<forall>c \<in> set pre. is_space c" "\<forall>c \<in> set post. is_space c"
    using strip_decomp [of t] unfolding s_def by blast
  define sgn where "sgn = (if s \<noteq> [] \<and> (hd s = 45 \<or> hd s = 43) then [hd s] else [])"
  have s: "s = sgn @ body" unfolding sgn_def body_def by (cases s) auto
  have sg: "sgn = [] \<or> sgn = [43] \<or> sgn = [45]" unfolding sgn_def by auto
  have neg: "(s \<noteq> [] \<and> hd s = 45) = (sgn = [45])"
  proof (cases "s \<noteq> [] \<and> (hd s = 45 \<or> hd s = 43)")
    case True
    then show ?thesis by (auto simp: sgn_def)
  next
    case False
    then show ?thesis by (auto simp: sgn_def)
  qed
  have "t = pre @ sgn @ body @ post" using d(1) s by simp
  with d(2,3) sg b lim v wv neg show "decimal_numeral t v"
    unfolding decimal_numeral_def by (intro exI [of _ pre] exI [of _ sgn] exI [of _ body] exI [of _ post]) simp
next
  assume "decimal_numeral t v"
  then obtain pre sgn b post where t: "t = pre @ sgn @ b @ post"
    and sp: "\<forall>c \<in> set pre. is_space c" "\<forall>c \<in> set post. is_space c"
    and sg: "sgn = [] \<or> sgn = [43] \<or> sgn = [45]"
    and b: "digit_body b" and lim: "length (digits_of b) \<le> max_str_digits"
    and v: "v = (if sgn = [45] then - base10 (digits_of b) else base10 (digits_of b))"
    unfolding decimal_numeral_def by blast
  note e = digit_body_ends [OF b]
  have p: "parse_digits 0 False b = Some (base10 (digits_of b))"
    using b by (simp add: parse_digits_body)
  have x: "sgn @ b \<noteq> []" using e(1) by simp
  have h: "\<not> is_space (hd (sgn @ b))"
    using sg e(1,2) by (auto simp: sign_not_space digit_not_space)
  have l: "\<not> is_space (last (sgn @ b))"
    using e(1,3) by (simp add: digit_not_space)
  have "strip (pre @ (sgn @ b) @ post) = sgn @ b"
    using x h l sp by (rule strip_core)
  then have st: "strip t = sgn @ b" by (simp add: t)
  have hb: "hd b \<noteq> 45" "hd b \<noteq> 43" using e(2) digit_val_sign by auto
  from sg show "int_of_str t = Inr v"
  proof (elim disjE)
    assume "sgn = []"
    with st p lim v hb e(1) show ?thesis by (simp add: int_of_str_def Let_def)
  next
    assume "sgn = [43]"
    with st p lim v show ?thesis by (simp add: int_of_str_def Let_def)
  next
    assume "sgn = [45]"
    with st p lim v show ?thesis by (simp add: int_of_str_def Let_def)
  qed
qed

lemma int_of_str_fails: "(int_of_str t = Inl ValueError) = (\<nexists>v. decimal_numeral t v)"
proof -
  have "(\<exists>v. int_of_str t = Inr v) = (\<exists>v. decimal_numeral t v)"
    by (simp add: int_of_str_iff)
  moreover have "(int_of_str t = Inl ValueError) = (\<not> (\<exists>v. int_of_str t = Inr v))"
  proof (cases "int_of_str t")
    case (Inl e)
    with int_of_str_error [OF Inl] show ?thesis by simp
  next
    case (Inr v)
    then show ?thesis by simp
  qed
  ultimately show ?thesis by simp
qed

lemma int_of_str_examples:
  "int_of_str (lit ''7'') = Inr 7" "int_of_str (lit ''abc'') = Inl ValueError"
  "int_of_str [] = Inl ValueError" "int_of_str (lit ''-3'') = Inr (- 3)"
  "int_of_str (lit ''12abc'') = Inl ValueError" "int_of_str (lit ''n/a 0'') = Inl ValueError"
  "int_of_str (lit '' +1_000 '') = Inr 1000" "int_of_str (lit ''1.5'') = Inl ValueError"
  by (simp_all add: lit_def int_of_str_def strip_def is_space_def digit_val_def
      digits_of_def map_filter_simps max_str_digits_def)

lemma decimal_numeral_examples:
  "decimal_numeral (lit ''7'') 7" "decimal_numeral (lit ''-3'') (- 3)"
  "decimal_numeral (lit '' +1_000 '') 1000"
  "\<not> decimal_numeral (lit ''12abc'') v" "\<not> decimal_numeral (lit ''n/a 0'') v"
  "\<not> decimal_numeral (lit ''abc'') v" "\<not> decimal_numeral [] v"
  unfolding int_of_str_iff [symmetric] by (simp_all add: int_of_str_examples)

section \<open>The two normalizers\<close>

text \<open>
  C5. For a quantity cell that holds the text \<open>t\<close>, the count is decided by three rules
  in this order: \<open>">10"\<close> gives 100; \<open>"1"\<close> gives 0; for every other text the count is
  \<open>v\<close> exactly when \<open>t\<close> is a decimal numeral for \<open>v\<close>, and the call fails with
  \<open>ValueError\<close> exactly when \<open>t\<close> is no decimal numeral. No other error occurs, and a count
  of 0 comes from the text \<open>"1"\<close> or from a numeral that denotes 0, never from a text that
  is not a numeral.
\<close>

theorem stock_count_rules:
  assumes "dict_get watch key_quantity = PStr t"
  shows "(t = lit ''>10'' \<longrightarrow> stock_count watch = Inr 100)
     \<and> (t = lit ''1'' \<longrightarrow> stock_count watch = Inr 0)
     \<and> (t \<noteq> lit ''>10'' \<and> t \<noteq> lit ''1'' \<longrightarrow>
          (\<forall>v. (stock_count watch = Inr v) = decimal_numeral t v)
          \<and> ((stock_count watch = Inl ValueError) = (\<nexists>v. decimal_numeral t v)))
     \<and> (\<forall>e. stock_count watch = Inl e \<longrightarrow> e = ValueError)
     \<and> (stock_count watch = Inr 0 \<longrightarrow> t = lit ''1'' \<or> decimal_numeral t 0)"
proof -
  have r: "stock_count watch =
           (if t = lit ''>10'' then Inr 100 else if t = lit ''1'' then Inr 0 else int_of_str t)"
    using assms by (simp add: stock_count_def)
  have a: "t = lit ''>10'' \<longrightarrow> stock_count watch = Inr 100" using r by simp
  have b: "t = lit ''1'' \<longrightarrow> stock_count watch = Inr 0" using r by (simp add: lit_def)
  have c: "(\<forall>v. (stock_count watch = Inr v) = decimal_numeral t v)
          \<and> ((stock_count watch = Inl ValueError) = (\<nexists>v. decimal_numeral t v))"
    if "t \<noteq> lit ''>10'' \<and> t \<noteq> lit ''1''"
  proof -
    from that r have "stock_count watch = int_of_str t" by simp
    then show ?thesis by (simp add: int_of_str_iff int_of_str_fails)
  qed
  have d: "e = ValueError" if "stock_count watch = Inl e" for e
    using that r int_of_str_error [of t e] by (simp split: if_splits)
  have z: "t = lit ''1'' \<or> decimal_numeral t 0" if "stock_count watch = Inr 0"
  proof (cases "t = lit ''1''")
    case True
    then show ?thesis by simp
  next
    case False
    with that r have "int_of_str t = Inr 0" by (simp split: if_splits)
    then show ?thesis by (simp add: int_of_str_iff)
  qed
  from a b c d z show ?thesis by (intro conjI allI impI) simp_all
qed

theorem stock_count_rules_witness:
  "dict_get [key_quantity \<mapsto> PStr (lit ''7'')] key_quantity = PStr (lit ''7'')
   \<and> stock_count [key_quantity \<mapsto> PStr (lit ''>10'')] = Inr 100
   \<and> stock_count [key_quantity \<mapsto> PStr (lit ''1'')] = Inr 0
   \<and> stock_count [key_quantity \<mapsto> PStr (lit ''7'')] = Inr 7
   \<and> stock_count [key_quantity \<mapsto> PStr (lit ''-3'')] = Inr (- 3)
   \<and> stock_count [key_quantity \<mapsto> PStr (lit ''abc'')] = Inl ValueError
   \<and> stock_count [key_quantity \<mapsto> PStr (lit ''12abc'')] = Inl ValueError
   \<and> stock_count [key_quantity \<mapsto> PStr (lit ''n/a 0'')] = Inl ValueError
   \<and> stock_count [key_quantity \<mapsto> PStr []] = Inl ValueError"
proof -
  have g: "dict_get [key_quantity \<mapsto> PStr x] key_quantity = PStr x" for x
    by (simp add: dict_get_def)
  have n: "lit ''7'' \<noteq> lit ''>10''" "lit ''7'' \<noteq> lit ''1''"
    "lit ''-3'' \<noteq> lit ''>10''" "lit ''-3'' \<noteq> lit ''1''"
    "lit ''abc'' \<noteq> lit ''>10''" "lit ''abc'' \<noteq> lit ''1''"
    "lit ''12abc'' \<noteq> lit ''>10''" "lit ''12abc'' \<noteq> lit ''1''"
    "lit ''n/a 0'' \<noteq> lit ''>10''" "lit ''n/a 0'' \<noteq> lit ''1''"
    "[] \<noteq> lit ''>10''" "[] \<noteq> lit ''1''"
    by (simp_all add: lit_def)
  have 1: "stock_count [key_quantity \<mapsto> PStr (lit ''>10'')] = Inr 100"
    using stock_count_rules [OF g [of "lit ''>10''"]] by blast
  have 2: "stock_count [key_quantity \<mapsto> PStr (lit ''1'')] = Inr 0"
    using stock_count_rules [OF g [of "lit ''1''"]] by blast
  have 3: "stock_count [key_quantity \<mapsto> PStr (lit ''7'')] = Inr 7"
    using stock_count_rules [OF g [of "lit ''7''"]] n decimal_numeral_examples(1) by blast
  have 4: "stock_count [key_quantity \<mapsto> PStr (lit ''-3'')] = Inr (- 3)"
    using stock_count_rules [OF g [of "lit ''-3''"]] n decimal_numeral_examples(2) by blast
  have 5: "stock_count [key_quantity \<mapsto> PStr (lit ''abc'')] = Inl ValueError"
    using stock_count_rules [OF g [of "lit ''abc''"]] n decimal_numeral_examples(6) by blast
  have 6: "stock_count [key_quantity \<mapsto> PStr (lit ''12abc'')] = Inl ValueError"
    using stock_count_rules [OF g [of "lit ''12abc''"]] n decimal_numeral_examples(4) by blast
  have 7: "stock_count [key_quantity \<mapsto> PStr (lit ''n/a 0'')] = Inl ValueError"
    using stock_count_rules [OF g [of "lit ''n/a 0''"]] n decimal_numeral_examples(5) by blast
  have 8: "stock_count [key_quantity \<mapsto> PStr []] = Inl ValueError"
    using stock_count_rules [OF g [of "[]"]] n decimal_numeral_examples(7) by blast
  from g [of "lit ''7''"] 1 2 3 4 5 6 7 8 show ?thesis by (intro conjI)
qed




section \<open>Quantity cells that hold an integer\<close>

lemma nat_digits_hd: "nat_digits n \<noteq> [] \<and> 48 \<le> hd (nat_digits n) \<and> hd (nat_digits n) \<le> 57"
proof (induction n rule: nat_digits.induct)
  case (1 n)
  show ?case
  proof (cases "n < 10")
    case True
    then show ?thesis by (subst (1 2 3) nat_digits.simps) simp
  next
    case False
    with 1 show ?thesis by (subst (1 2 3) nat_digits.simps) simp
  qed
qed

lemma nat_digits_one: "nat_digits n = lit ''1'' \<longleftrightarrow> n = 1"
proof (cases "n < 10")
  case True
  then show ?thesis by (subst nat_digits.simps) (auto simp: lit_def)
next
  case False
  have "nat_digits (n div 10) \<noteq> []" using nat_digits_hd by blast
  then have "length (nat_digits (n div 10) @ [48 + n mod 10]) \<noteq> 1" by simp
  then have "nat_digits (n div 10) @ [48 + n mod 10] \<noteq> lit ''1''"
    by (auto simp: lit_def)
  with False show ?thesis by (subst nat_digits.simps) simp
qed

text \<open>
  When pandas delivers the quantity as an integer, rule 2 applies to the integer 1 and
  every other integer is kept as it is.
\<close>

lemma stock_count_int:
  assumes "dict_get watch key_quantity = PInt i"
  shows "stock_count watch = Inr (if i = 1 then 0 else i)"
proof -
  have a: "int_str i \<noteq> lit ''>10''"
  proof
    assume e: "int_str i = lit ''>10''"
    show False
    proof (cases "i < 0")
      case True
      with e show False by (simp add: int_str_def lit_def)
    next
      case False
      with e have "hd (nat_digits (nat i)) = 62" by (simp add: int_str_def lit_def)
      with nat_digits_hd [of "nat i"] show False by simp
    qed
  qed
  have b: "int_str i = lit ''1'' \<longleftrightarrow> i = 1"
  proof (cases "i < 0")
    case True
    then show ?thesis by (simp add: int_str_def lit_def)
  next
    case False
    then have "int_str i = lit ''1'' \<longleftrightarrow> nat i = 1"
      by (simp add: int_str_def nat_digits_one)
    with False show ?thesis by auto
  qed
  from assms a b show ?thesis by (simp add: stock_count_def)
qed

section \<open>Reconciliation: stock records\<close>

lemma seller_match_loop_ids:
  "seller_match_loop F acc ids = (Inr out, ids') \<Longrightarrow> distinct (map offer_id acc @ ids) \<Longrightarrow>
     distinct (map offer_id out @ ids')
     \<and> set (map offer_id out) \<union> set ids' = set (map offer_id acc) \<union> set ids"
proof (induction F arbitrary: acc ids)
  case Nil
  then show ?case by simp
next
  case (Cons w F)
  show ?case
  proof (cases "code_of w \<in> set ids")
    case True
    with Cons.prems(1) obtain n where n: "stock_count w = Inr n"
      and r: "seller_match_loop F (acc @ [\<lparr>offer_id = code_of w, stock = n\<rparr>])
                (remove1 (code_of w) ids) = (Inr out, ids')"
      by (auto split: sum.splits)
    have d: "distinct (map offer_id (acc @ [\<lparr>offer_id = code_of w, stock = n\<rparr>])
                @ remove1 (code_of w) ids)"
      using Cons.prems(2) True by auto
    have s: "set (remove1 (code_of w) ids) = set ids - {code_of w}"
      using Cons.prems(2) by simp
    from Cons.IH [OF r d] s True show ?thesis by auto
  next
    case False
    with Cons.prems(1) have r: "seller_match_loop F acc ids = (Inr out, ids')" by simp
    from Cons.IH [OF r Cons.prems(2)] show ?thesis .
  qed
qed

lemma seller_match_loop_first:
  "seller_match_loop F acc ids = (Inr out, ids') \<Longrightarrow> distinct ids \<Longrightarrow>
     \<exists>new. out = acc @ new
       \<and> (\<forall>r \<in> set new. offer_id r \<in> set ids
            \<and> (\<exists>w. find (\<lambda>w. code_of w = offer_id r) F = Some w \<and> stock_count w = Inr (stock r)))
       \<and> (\<forall>c \<in> set ids'. c \<in> set ids \<and> find (\<lambda>w. code_of w = c) F = None)"
proof (induction F arbitrary: acc ids)
  case Nil
  then show ?case by simp
next
  case (Cons w F)
  show ?case
  proof (cases "code_of w \<in> set ids")
    case True
    define r0 where "r0 = \<lparr>offer_id = code_of w, stock = (case stock_count w of Inr n \<Rightarrow> n | Inl e \<Rightarrow> 0)\<rparr>"
    from True Cons.prems(1) obtain n where n: "stock_count w = Inr n"
      and r: "seller_match_loop F (acc @ [r0]) (remove1 (code_of w) ids) = (Inr out, ids')"
      by (auto simp: r0_def split: sum.splits)
    have d: "distinct (remove1 (code_of w) ids)" using Cons.prems(2) by simp
    have s: "set (remove1 (code_of w) ids) = set ids - {code_of w}"
      using Cons.prems(2) by simp
    from Cons.IH [OF r d] obtain new where new: "out = (acc @ [r0]) @ new"
      and a: "\<forall>r \<in> set new. offer_id r \<in> set (remove1 (code_of w) ids)
            \<and> (\<exists>w. find (\<lambda>w. code_of w = offer_id r) F = Some w \<and> stock_count w = Inr (stock r))"
      and b: "\<forall>c \<in> set ids'. c \<in> set (remove1 (code_of w) ids) \<and> find (\<lambda>w. code_of w = c) F = None"
      by blast
    have "out = acc @ (r0 # new)" using new by simp
    moreover have "\<forall>r \<in> set (r0 # new). offer_id r \<in> set ids
            \<and> (\<exists>w'. find (\<lambda>w. code_of w = offer_id r) (w # F) = Some w' \<and> stock_count w' = Inr (stock r))"
      using a s True n by (auto simp: r0_def)
    moreover have "\<forall>c \<in> set ids'. c \<in> set ids \<and> find (\<lambda>w. code_of w = c) (w # F) = None"
      using b s by auto
    ultimately show ?thesis by blast
  next
    case False
    with Cons.prems(1) have r: "seller_match_loop F acc ids = (Inr out, ids')" by simp
    from Cons.IH [OF r Cons.prems(2)] obtain new where new: "out = acc @ new"
      and a: "\<forall>r \<in> set new. offer_id r \<in> set ids
            \<and> (\<exists>w. find (\<lambda>w. code_of w = offer_id r) F = Some w \<and> stock_count w = Inr (stock r))"
      and b: "\<forall>c \<in> set ids'. c \<in> set ids \<and> find (\<lambda>w. code_of w = c) F = None"
      by blast
    have "\<forall>r \<in> set new. offer_id r \<in> set ids
            \<and> (\<exists>w'. find (\<lambda>w. code_of w = offer_id r) (w # F) = Some w' \<and> stock_count w' = Inr (stock r))"
      using a False by auto
    moreover have "\<forall>c \<in> set ids'. c \<in> set ids \<and> find (\<lambda>w. code_of w = c) (w # F) = None"
      using b False by auto
    ultimately show ?thesis using new by blast
  qed
qed

lemma seller_match_loop_skip:
  "code_of w \<notin> set ids \<Longrightarrow>
     seller_match_loop (F1 @ w # F2) acc ids = seller_match_loop (F1 @ F2) acc ids"
proof (induction F1 arbitrary: acc ids)
  case Nil
  then show ?case by simp
next
  case (Cons a F1)
  have "code_of w \<notin> set (remove1 (code_of a) ids)"
    using Cons.prems by (auto dest: notin_set_remove1)
  with Cons show ?case by (simp split: sum.splits)
qed

lemma seller_price_loop_skip:
  "code_of w \<notin> set ids \<Longrightarrow>
     seller_price_loop (F1 @ w # F2) acc ids = seller_price_loop (F1 @ F2) acc ids"
  by (induction F1 arbitrary: acc) (simp_all split: sum.splits)

lemma example_rows:
  "code_of row_A = PStr (lit ''A'')" "code_of row_B = PStr (lit ''B'')"
  "code_of row_Z = PStr (lit ''Z'')"
  "stock_count row_A = Inr 100" "stock_count row_B = Inr 0"
  "stock_count row_Z = Inl ValueError"
  "price_conversion (dict_get row_A key_price) = Inr (lit ''100'')"
  "price_conversion (dict_get row_B key_price) = Inr (lit ''50'')"
  "price_conversion (dict_get row_Z key_price) = Inl AttributeError"
  by (simp_all add: row_A_def row_B_def row_Z_def code_of_def stock_count_def dict_get_def
      key_code_def key_quantity_def key_price_def lit_def sub_non_digits_def
      int_of_str_def strip_def is_space_def digit_val_def digits_of_def map_filter_simps
      max_str_digits_def)

lemma example_stocks:
  "seller_create_stocks example_feed example_catalog =
     (Inr [\<lparr>offer_id = PStr (lit ''A''), stock = 100\<rparr>, \<lparr>offer_id = PStr (lit ''B''), stock = 0\<rparr>,
           \<lparr>offer_id = PStr (lit ''C''), stock = 0\<rparr>],
      [PStr (lit ''C'')])"
  by (simp add: seller_create_stocks_def example_feed_def example_catalog_def example_rows lit_def)

text \<open>
  C1. For a catalog list without duplicates, when \<open>create_stocks\<close> returns its records,
  the identifiers of the records are exactly those of the catalog, each in exactly one
  record; the record of an identifier carries the quantity of the first feed row with
  that code when there is one, and 0 when there is none. A feed row whose code is not in
  the catalog can be deleted from the feed without changing what \<open>create_stocks\<close> and
  \<open>create_prices\<close> return: it contributes no record (and its cells are never read).
\<close>

theorem seller_create_stocks_catalog:
  assumes "distinct C" and "seller_create_stocks F C = (Inr stocks, C')"
  shows "distinct (map offer_id stocks) \<and> set (map offer_id stocks) = set C
     \<and> (\<forall>r \<in> set stocks.
           case find (\<lambda>w. code_of w = offer_id r) F of
             Some w \<Rightarrow> stock_count w = Inr (stock r)
           | None \<Rightarrow> stock r = 0)
     \<and> (\<forall>F1 w F2. code_of w \<notin> set C \<longrightarrow>
           seller_create_stocks (F1 @ w # F2) C = seller_create_stocks (F1 @ F2) C
           \<and> seller_create_prices (F1 @ w # F2) C = seller_create_prices (F1 @ F2) C)"
proof -
  from assms(2) obtain st0 where l: "seller_match_loop F [] C = (Inr st0, C')"
    and st: "stocks = st0 @ map (\<lambda>i. \<lparr>offer_id = i, stock = 0\<rparr>) C'"
    by (auto simp: seller_create_stocks_def split: prod.splits sum.splits)
  have ids: "map offer_id stocks = map offer_id st0 @ C'"
    by (simp add: st comp_def)
  from seller_match_loop_ids [OF l] assms(1)
  have d: "distinct (map offer_id st0 @ C')"
    and s: "set (map offer_id st0) \<union> set C' = set C"
    by simp_all
  from seller_match_loop_first [OF l assms(1)]
  have a: "\<forall>r \<in> set st0. \<exists>w. find (\<lambda>w. code_of w = offer_id r) F = Some w
              \<and> stock_count w = Inr (stock r)"
    and b: "\<forall>c \<in> set C'. find (\<lambda>w. code_of w = c) F = None"
    by auto
  have q: "case find (\<lambda>w. code_of w = offer_id r) F of
             Some w \<Rightarrow> stock_count w = Inr (stock r)
           | None \<Rightarrow> stock r = 0" if "r \<in> set stocks" for r
  proof (cases "r \<in> set st0")
    case True
    with a obtain w where "find (\<lambda>w. code_of w = offer_id r) F = Some w"
      "stock_count w = Inr (stock r)" by blast
    then show ?thesis by simp
  next
    case False
    with that st obtain c where "c \<in> set C'" "r = \<lparr>offer_id = c, stock = 0\<rparr>" by auto
    with b show ?thesis by simp
  qed
  have k: "seller_create_stocks (F1 @ w # F2) C = seller_create_stocks (F1 @ F2) C
           \<and> seller_create_prices (F1 @ w # F2) C = seller_create_prices (F1 @ F2) C"
    if "code_of w \<notin> set C" for F1 w F2
    using that
    by (simp add: seller_create_stocks_def seller_create_prices_def seller_match_loop_skip
        seller_price_loop_skip)
  have d': "distinct (map offer_id stocks)" using d by (simp add: ids)
  have s': "set (map offer_id stocks) = set C" using s by (simp add: ids)
  from d' s' q k show ?thesis by (intro conjI ballI allI impI) simp_all
qed

theorem seller_create_stocks_catalog_witness:
  "distinct example_catalog
   \<and> seller_create_stocks example_feed example_catalog =
       (Inr [\<lparr>offer_id = PStr (lit ''A''), stock = 100\<rparr>, \<lparr>offer_id = PStr (lit ''B''), stock = 0\<rparr>,
             \<lparr>offer_id = PStr (lit ''C''), stock = 0\<rparr>],
        [PStr (lit ''C'')])
   \<and> code_of row_Z \<notin> set example_catalog
   \<and> seller_create_stocks [row_A, row_Z, row_B] example_catalog =
       seller_create_stocks example_feed example_catalog
   \<and> seller_create_prices [row_A, row_Z, row_B] example_catalog =
       seller_create_prices example_feed example_catalog"
proof -
  have d: "distinct example_catalog" by (simp add: example_catalog_def lit_def)
  have z: "code_of row_Z \<notin> set example_catalog"
    by (simp add: example_rows example_catalog_def lit_def)
  from seller_create_stocks_catalog [OF d example_stocks] z
  have "seller_create_stocks ([row_A] @ row_Z # [row_B]) example_catalog =
          seller_create_stocks ([row_A] @ [row_B]) example_catalog
        \<and> seller_create_prices ([row_A] @ row_Z # [row_B]) example_catalog =
          seller_create_prices ([row_A] @ [row_B]) example_catalog"
    by blast
  with d z example_stocks show ?thesis by (simp add: example_feed_def)
qed

lemma market_match_loop_seller:
  "market_match_loop date wh F (map (to_market date wh) acc) ids =
     (case seller_match_loop F acc ids of
        (Inl e, i) \<Rightarrow> (Inl e, i)
      | (Inr st, i) \<Rightarrow> (Inr (map (to_market date wh) st), i))"
proof (induction F arbitrary: acc ids)
  case Nil
  show ?case by simp
next
  case (Cons w F)
  show ?case
  proof (cases "code_of w \<in> set ids")
    case True
    show ?thesis
    proof (cases "stock_count w")
      case (Inl e)
      with True show ?thesis by simp
    next
      case (Inr n)
      have "map (to_market date wh) acc @
              [\<lparr>sku = code_of w, warehouseId = wh,
                items = [\<lparr>count = n, item_type = lit ''FIT'', updatedAt = date\<rparr>]\<rparr>]
            = map (to_market date wh) (acc @ [\<lparr>offer_id = code_of w, stock = n\<rparr>])"
        by (simp add: to_market_def)
      with True Inr Cons.IH [of "acc @ [\<lparr>offer_id = code_of w, stock = n\<rparr>]" "remove1 (code_of w) ids"]
      show ?thesis by simp
    qed
  next
    case False
    with Cons.IH [of acc ids] show ?thesis by simp
  qed
qed

lemma market_create_stocks_seller:
  "market_create_stocks date F ids wh =
     (case seller_create_stocks F ids of
        (Inl e, i) \<Rightarrow> (Inl e, i)
      | (Inr st, i) \<Rightarrow> (Inr (map (to_market date wh) st), i))"
proof -
  have z: "map (\<lambda>i. \<lparr>sku = i, warehouseId = wh,
                  items = [\<lparr>count = 0, item_type = lit ''FIT'', updatedAt = date\<rparr>]\<rparr>) xs
           = map (to_market date wh) (map (\<lambda>i. \<lparr>offer_id = i, stock = 0\<rparr>) xs)" for xs
    by (simp add: to_market_def)
  show ?thesis
    using market_match_loop_seller [of date wh F "[]" ids]
    by (simp add: market_create_stocks_def seller_create_stocks_def z
        split: prod.splits sum.splits)
qed

lemma filter_distinct_le1:
  "distinct (map f xs) \<Longrightarrow> length (filter (\<lambda>r. f r = c) xs) \<le> Suc 0"
proof (induction xs)
  case Nil
  show ?case by simp
next
  case (Cons x xs)
  show ?case
  proof (cases "f x = c")
    case True
    with Cons.prems have "c \<notin> f ` set xs" by simp
    then have "\<forall>r \<in> set xs. f r \<noteq> c" by blast
    then have "filter (\<lambda>r. f r = c) xs = []" by (simp add: filter_empty_conv)
    with True show ?thesis by simp
  next
    case False
    with Cons show ?thesis by simp
  qed
qed

lemma seller_price_loop_count:
  "seller_price_loop F acc ids = Inr out \<Longrightarrow>
     length (filter (\<lambda>p. price_offer_id p = c) out) =
       length (filter (\<lambda>p. price_offer_id p = c) acc)
       + (if c \<in> set ids then length (filter (\<lambda>w. code_of w = c) F) else 0)"
proof (induction F arbitrary: acc)
  case Nil
  then show ?case by simp
next
  case (Cons w F)
  show ?case
  proof (cases "code_of w \<in> set ids")
    case True
    with Cons.prems obtain p where
      r: "seller_price_loop F
            (acc @ [\<lparr>auto_action_enabled = lit ''UNKNOWN'', currency_code = lit ''RUB'',
                      price_offer_id = code_of w, old_price = lit ''0'', price = p\<rparr>]) ids = Inr out"
      by (auto split: sum.splits)
    from Cons.IH [OF r] True show ?thesis by auto
  next
    case False
    with Cons.prems have r: "seller_price_loop F acc ids = Inr out" by simp
    from Cons.IH [OF r] False show ?thesis by auto
  qed
qed

lemma market_price_loop_count:
  "market_price_loop F acc ids = Inr out \<Longrightarrow>
     length (filter (\<lambda>p. price_id p = c) out) =
       length (filter (\<lambda>p. price_id p = c) acc)
       + (if c \<in> set ids then length (filter (\<lambda>w. code_of w = c) F) else 0)"
proof (induction F arbitrary: acc)
  case Nil
  then show ?case by simp
next
  case (Cons w F)
  show ?case
  proof (cases "code_of w \<in> set ids")
    case True
    with Cons.prems obtain v where
      r: "market_price_loop F
            (acc @ [\<lparr>price_id = code_of w,
                      price_body = \<lparr>price_value = v, currencyId = lit ''RUR''\<rparr>\<rparr>]) ids = Inr out"
      by (auto split: sum.splits)
    from Cons.IH [OF r] True show ?thesis by auto
  next
    case False
    with Cons.prems have r: "market_price_loop F acc ids = Inr out" by simp
    from Cons.IH [OF r] False show ?thesis by auto
  qed
qed

lemma seller_create_stocks_distinct:
  assumes "distinct C" and "seller_create_stocks F C = (Inr stocks, C')"
  shows "distinct (map offer_id stocks)"
proof -
  from assms(2) obtain st0 where l: "seller_match_loop F [] C = (Inr st0, C')"
    and st: "stocks = st0 @ map (\<lambda>i. \<lparr>offer_id = i, stock = 0\<rparr>) C'"
    by (auto simp: seller_create_stocks_def split: prod.splits sum.splits)
  from seller_match_loop_ids [OF l] assms(1) have "distinct (map offer_id st0 @ C')" by simp
  then show ?thesis by (simp add: st comp_def)
qed

lemma market_create_stocks_Inr:
  assumes "market_create_stocks date F C wh = (Inr stocks, C')"
  shows "\<exists>st. seller_create_stocks F C = (Inr st, C') \<and> stocks = map (to_market date wh) st"
  using assms unfolding market_create_stocks_seller
  by (auto split: prod.splits sum.splits)

lemma example_prices:
  "seller_create_prices [row_A, row_A] [PStr (lit ''A'')] =
     Inr [\<lparr>auto_action_enabled = lit ''UNKNOWN'', currency_code = lit ''RUB'',
            price_offer_id = PStr (lit ''A''), old_price = lit ''0'', price = lit ''100''\<rparr>,
          \<lparr>auto_action_enabled = lit ''UNKNOWN'', currency_code = lit ''RUB'',
            price_offer_id = PStr (lit ''A''), old_price = lit ''0'', price = lit ''100''\<rparr>]"
  by (simp add: seller_create_prices_def example_rows)

lemma int_of_str_100: "int_of_str (lit ''100'') = Inr 100"
  by (simp add: lit_def int_of_str_def strip_def is_space_def digit_val_def digits_of_def
      map_filter_simps max_str_digits_def)

section \<open>Reconciliation: how many records an identifier gets\<close>

text \<open>
  C2, as the code has it. For a catalog list without duplicates, \<open>create_stocks\<close> (of
  either module) returns at most one stock record per identifier, however often a code
  occurs in the feed. \<open>create_prices\<close> removes nothing from the catalog list: it returns
  one price record for every feed row whose code is in the catalog, so a code that occurs
  on \<open>k\<close> rows gets \<open>k\<close> price records.
\<close>

theorem records_per_identifier:
  assumes "distinct C"
  shows "(\<forall>stocks C'. seller_create_stocks F C = (Inr stocks, C') \<longrightarrow>
            (\<forall>c. length (filter (\<lambda>r. offer_id r = c) stocks) \<le> 1))
     \<and> (\<forall>date wh stocks C'. market_create_stocks date F C wh = (Inr stocks, C') \<longrightarrow>
            (\<forall>c. length (filter (\<lambda>r. sku r = c) stocks) \<le> 1))
     \<and> (\<forall>prices c. seller_create_prices F C = Inr prices \<longrightarrow>
            length (filter (\<lambda>p. price_offer_id p = c) prices) =
              (if c \<in> set C then length (filter (\<lambda>w. code_of w = c) F) else 0))
     \<and> (\<forall>prices c. market_create_prices F C = Inr prices \<longrightarrow>
            length (filter (\<lambda>p. price_id p = c) prices) =
              (if c \<in> set C then length (filter (\<lambda>w. code_of w = c) F) else 0))"
proof -
  have a: "length (filter (\<lambda>r. offer_id r = c) stocks) \<le> 1"
    if "seller_create_stocks F C = (Inr stocks, C')" for stocks C' c
    using filter_distinct_le1 [OF seller_create_stocks_distinct [OF assms that]] by simp
  have b: "length (filter (\<lambda>r. sku r = c) stocks) \<le> 1"
    if "market_create_stocks date F C wh = (Inr stocks, C')" for date wh stocks C' c
  proof -
    from market_create_stocks_Inr [OF that] obtain st
      where s: "seller_create_stocks F C = (Inr st, C')" and m: "stocks = map (to_market date wh) st"
      by blast
    have "map sku stocks = map offer_id st" by (simp add: m to_market_def)
    with seller_create_stocks_distinct [OF assms s] have "distinct (map sku stocks)" by simp
    from filter_distinct_le1 [OF this] show ?thesis by simp
  qed
  have c: "length (filter (\<lambda>p. price_offer_id p = c) prices) =
              (if c \<in> set C then length (filter (\<lambda>w. code_of w = c) F) else 0)"
    if "seller_create_prices F C = Inr prices" for prices c
    using seller_price_loop_count [of F "[]" C prices c] that
    by (simp add: seller_create_prices_def)
  have d: "length (filter (\<lambda>p. price_id p = c) prices) =
              (if c \<in> set C then length (filter (\<lambda>w. code_of w = c) F) else 0)"
    if "market_create_prices F C = Inr prices" for prices c
    using market_price_loop_count [of F "[]" C prices c] that
    by (simp add: market_create_prices_def)
  from a b c d show ?thesis by (intro conjI allI impI)
qed

theorem records_per_identifier_witness:
  "distinct [PStr (lit ''A'')]
   \<and> (\<exists>prices. seller_create_prices [row_A, row_A] [PStr (lit ''A'')] = Inr prices
        \<and> length (filter (\<lambda>p. price_offer_id p = PStr (lit ''A'')) prices) = 2)
   \<and> (\<exists>stocks C'. seller_create_stocks [row_A, row_A] [PStr (lit ''A'')] = (Inr stocks, C')
        \<and> length (filter (\<lambda>r. offer_id r = PStr (lit ''A'')) stocks) \<le> 1)"
proof -
  have d: "distinct [PStr (lit ''A'')]" by simp
  have s: "seller_create_stocks [row_A, row_A] [PStr (lit ''A'')] =
             (Inr [\<lparr>offer_id = PStr (lit ''A''), stock = 100\<rparr>], [])"
    by (simp add: seller_create_stocks_def example_rows)
  have f: "length (filter (\<lambda>w. code_of w = PStr (lit ''A'')) [row_A, row_A]) = 2"
    by (simp add: example_rows)
  note t = records_per_identifier [OF d, of "[row_A, row_A]"]
  from t example_prices f
  have "\<exists>prices. seller_create_prices [row_A, row_A] [PStr (lit ''A'')] = Inr prices
        \<and> length (filter (\<lambda>p. price_offer_id p = PStr (lit ''A'')) prices) = 2"
    by simp
  moreover from t s
  have "\<exists>stocks C'. seller_create_stocks [row_A, row_A] [PStr (lit ''A'')] = (Inr stocks, C')
        \<and> length (filter (\<lambda>r. offer_id r = PStr (lit ''A'')) stocks) \<le> 1"
    by simp
  ultimately show ?thesis using d by blast
qed

text \<open>
  C2, as the spec states it, fails for price records: with the catalog \<open>[A]\<close> and a feed
  that has the row of \<open>A\<close> twice, \<open>create_prices\<close> of either module returns two price
  records for \<open>A\<close>.
\<close>

theorem price_records_counterexample:
  "seller_create_prices [row_A, row_A] [PStr (lit ''A'')] =
     Inr [\<lparr>auto_action_enabled = lit ''UNKNOWN'', currency_code = lit ''RUB'',
            price_offer_id = PStr (lit ''A''), old_price = lit ''0'', price = lit ''100''\<rparr>,
          \<lparr>auto_action_enabled = lit ''UNKNOWN'', currency_code = lit ''RUB'',
            price_offer_id = PStr (lit ''A''), old_price = lit ''0'', price = lit ''100''\<rparr>]
   \<and> market_create_prices [row_A, row_A] [PStr (lit ''A'')] =
     Inr [\<lparr>price_id = PStr (lit ''A''),
            price_body = \<lparr>price_value = 100, currencyId = lit ''RUR''\<rparr>\<rparr>,
          \<lparr>price_id = PStr (lit ''A''),
            price_body = \<lparr>price_value = 100, currencyId = lit ''RUR''\<rparr>\<rparr>]"
  by (simp add: example_prices market_create_prices_def example_rows int_of_str_100)

section \<open>Reconciliation: the timestamp\<close>

text \<open>
  C7, as the code has it. Every stock record that one call of market.create_stocks returns
  carries exactly one timestamp, and it is the text \<open>date\<close> that the call built from the
  clock before it looked at the feed: one timestamp for the whole batch.
\<close>

theorem market_create_stocks_timestamp:
  assumes "market_create_stocks date F C wh = (Inr stocks, C')"
  shows "\<forall>r \<in> set stocks. map updatedAt (items r) = [date]"
proof -
  from market_create_stocks_Inr [OF assms] obtain st
    where "stocks = map (to_market date wh) st" by blast
  then show ?thesis by (auto simp: to_market_def)
qed

theorem market_create_stocks_timestamp_witness:
  "market_create_stocks (lit ''2024-01-01T00:00:00Z'') example_feed example_catalog (PInt 7) =
     (Inr (map (to_market (lit ''2024-01-01T00:00:00Z'') (PInt 7))
            [\<lparr>offer_id = PStr (lit ''A''), stock = 100\<rparr>, \<lparr>offer_id = PStr (lit ''B''), stock = 0\<rparr>,
             \<lparr>offer_id = PStr (lit ''C''), stock = 0\<rparr>]),
      [PStr (lit ''C'')])
   \<and> map (\<lambda>r. map updatedAt (items r))
         (map (to_market (lit ''2024-01-01T00:00:00Z'') (PInt 7))
            [\<lparr>offer_id = PStr (lit ''A''), stock = 100\<rparr>, \<lparr>offer_id = PStr (lit ''B''), stock = 0\<rparr>,
             \<lparr>offer_id = PStr (lit ''C''), stock = 0\<rparr>])
       = [[lit ''2024-01-01T00:00:00Z''], [lit ''2024-01-01T00:00:00Z''],
          [lit ''2024-01-01T00:00:00Z'']]"
proof -
  have e: "market_create_stocks (lit ''2024-01-01T00:00:00Z'') example_feed example_catalog (PInt 7) =
     (Inr (map (to_market (lit ''2024-01-01T00:00:00Z'') (PInt 7))
            [\<lparr>offer_id = PStr (lit ''A''), stock = 100\<rparr>, \<lparr>offer_id = PStr (lit ''B''), stock = 0\<rparr>,
             \<lparr>offer_id = PStr (lit ''C''), stock = 0\<rparr>]),
      [PStr (lit ''C'')])"
    by (simp add: market_create_stocks_seller example_stocks)
  from market_create_stocks_timestamp [OF e] e show ?thesis by simp
qed

text \<open>
  C7, as the spec states it, fails for OZON: the records that seller.create_stocks returns
  consist of an identifier and a count and carry no timestamp.
\<close>

theorem seller_stocks_counterexample:
  "fst (seller_create_stocks example_feed example_catalog) =
     Inr [\<lparr>offer_id = PStr (lit ''A''), stock = 100\<rparr>, \<lparr>offer_id = PStr (lit ''B''), stock = 0\<rparr>,
          \<lparr>offer_id = PStr (lit ''C''), stock = 0\<rparr>]"
  by (simp add: example_stocks)

section \<open>Properties of divide\<close>

lemma concat_slices:
  "concat (map (\<lambda>k. take m (drop (k * m) xs)) [0 ..< c]) = take (c * m) xs"
proof (induction c)
  case 0
  show ?case by simp
next
  case (Suc c)
  have "take (c * m) xs @ take m (drop (c * m) xs) = take (c * m + m) xs"
    by (simp add: take_add)
  with Suc show ?case by (simp add: add.commute)
qed

lemma ceil_div_cover:
  assumes "0 < (m::nat)"
  shows "L \<le> ((L + m - 1) div m) * m"
proof -
  have "L + m - 1 = ((L + m - 1) div m) * m + (L + m - 1) mod m"
    by simp
  moreover have "(L + m - 1) mod m < m"
    using assms by simp
  ultimately show ?thesis by linarith
qed

lemma ceil_div_below:
  assumes "0 < (m::nat)" and "Suc k < (L + m - 1) div m"
  shows "Suc k * m < L"
proof -
  have "Suc (Suc k) \<le> (L + m - 1) div m" using assms(2) by simp
  then have "Suc (Suc k) * m \<le> ((L + m - 1) div m) * m"
    by (rule mult_le_mono1)
  also have "\<dots> \<le> L + m - 1" by simp
  finally have "Suc k * m + m \<le> L + m - 1" by simp
  with assms(1) show ?thesis by linarith
qed

lemma ceil_div_last:
  assumes "0 < (m::nat)" and "0 < L"
  shows "L - ((L + m - 1) div m - 1) * m = (if L mod m = 0 then m else L mod m)"
proof (cases "L mod m = 0")
  case True
  then have "m dvd L" by (simp add: mod_eq_0_iff_dvd)
  then obtain q where q: "L = q * m" by (auto simp: dvd_def mult.commute)
  with assms have "0 < q" by (cases q) auto
  have "(q * m + m - 1) div m = q"
  proof -
    have "q * m + m - 1 = (m - 1) + q * m" using assms(1) by simp
    then have "(q * m + m - 1) div m = (m - 1) div m + q"
      using assms(1) by (simp only: div_mult_self1)
    then show ?thesis using assms(1) by simp
  qed
  with q True \<open>0 < q\<close> show ?thesis
    by (cases q) (simp_all)
next
  case False
  define r where "r = L mod m"
  define q where "q = L div m"
  have L: "L = q * m + r" by (simp add: q_def r_def)
  have r: "0 < r" "r < m" using False assms(1) by (simp_all add: r_def)
  have "L + m - 1 = (r - 1) + (q + 1) * m" using r L by simp
  then have "(L + m - 1) div m = (r - 1) div m + (q + 1)"
    using assms(1) by (simp only: div_mult_self1)
  then have "(L + m - 1) div m = q + 1" using r by simp
  with L False show ?thesis by (simp add: r_def)
qed


text \<open>
  C8. For a chunk size of at least 1, \<open>divide\<close> returns chunks whose concatenation is
  the input; chunk \<open>k\<close> is the slice of \<open>n\<close> elements that starts at index \<open>k * n\<close>
  (contiguous, in order, not overlapping); every chunk but the last has exactly \<open>n\<close>
  elements and the last has \<open>len mod n\<close> elements, or \<open>n\<close> when \<open>n\<close> divides the length;
  the empty list gives no chunk.
\<close>

theorem divide_chunks:
  assumes "1 \<le> n"
  shows "\<exists>cs. divide lst n = Inr cs
     \<and> concat cs = lst
     \<and> length cs = (length lst + nat n - 1) div nat n
     \<and> (\<forall>k < length cs. cs ! k = take (nat n) (drop (k * nat n) lst))
     \<and> (\<forall>k. Suc k < length cs \<longrightarrow> length (cs ! k) = nat n)
     \<and> (cs \<noteq> [] \<longrightarrow> length (last cs) =
           (if length lst mod nat n = 0 then nat n else length lst mod nat n))
     \<and> (lst = [] \<longrightarrow> cs = [])"
proof -
  define m where "m = nat n"
  define L where "L = length lst"
  define c where "c = (L + m - 1) div m"
  define cs where "cs = map (\<lambda>k. take m (drop (k * m) lst)) [0 ..< c]"
  have m: "0 < m" using assms by (simp add: m_def)
  have d: "divide lst n = Inr cs"
    using assms by (simp add: divide_def range0_def cs_def c_def m_def L_def comp_def)
  have len: "length cs = c" by (simp add: cs_def)
  have nth: "cs ! k = take m (drop (k * m) lst)" if "k < c" for k
    using that by (simp add: cs_def)
  have cat: "concat cs = lst"
  proof -
    have "concat cs = take (c * m) lst" unfolding cs_def by (rule concat_slices)
    moreover have "L \<le> c * m" unfolding c_def using m by (rule ceil_div_cover)
    ultimately show ?thesis by (simp add: L_def)
  qed
  have full: "length (cs ! k) = m" if "Suc k < c" for k
  proof -
    have "Suc k * m < L" using m that unfolding c_def by (rule ceil_div_below)
    then have "k * m + m \<le> L" by simp
    moreover have "k < c" using that by simp
    ultimately show ?thesis by (simp add: nth L_def)
  qed
  have lst: "length (last cs) = (if L mod m = 0 then m else L mod m)" if "cs \<noteq> []"
  proof -
    have c0: "0 < c" using that len by (cases c) auto
    then have L0: "0 < L" unfolding c_def using m by (cases L) auto
    have "last cs = cs ! (c - 1)" using that len by (simp add: last_conv_nth)
    also have "\<dots> = take m (drop ((c - 1) * m) lst)" using c0 by (simp add: nth)
    finally have "length (last cs) = min (L - (c - 1) * m) m" by (simp add: L_def)
    moreover have "L - (c - 1) * m = (if L mod m = 0 then m else L mod m)"
      unfolding c_def using m L0 by (rule ceil_div_last)
    ultimately show ?thesis using m by (simp add: min_def)
  qed
  have emp: "cs = []" if "lst = []"
    using that m by (simp add: cs_def c_def L_def)
  show ?thesis
    using d cat len nth full lst emp unfolding m_def [symmetric] L_def [symmetric] c_def [symmetric]
    by blast
qed

theorem divide_chunks_witness:
  "(1::int) \<le> 2 \<and> divide [1, 2, 3, 4, 5 :: int] 2 = Inr [[1, 2], [3, 4], [5]]
     \<and> (\<exists>cs. divide [1, 2, 3, 4, 5 :: int] 2 = Inr cs \<and> concat cs = [1, 2, 3, 4, 5]
          \<and> length cs = 3 \<and> length (last cs) = 1)"
proof -
  have e: "divide [1, 2, 3, 4, 5 :: int] 2 = Inr [[1, 2], [3, 4], [5]]"
    by (simp add: divide_def range0_def upt_conv_Cons)
  have h: "(1::int) \<le> 2" by simp
  from divide_chunks [OF h, of "[1, 2, 3, 4, 5 :: int]"]
  obtain cs where "divide [1, 2, 3, 4, 5 :: int] 2 = Inr cs" "concat cs = [1, 2, 3, 4, 5]"
    "length cs = (length [1, 2, 3, 4, 5 :: int] + nat 2 - 1) div nat 2"
    by blast
  with e show ?thesis by auto
qed

section \<open>Uploading in chunks\<close>






section \<open>Termination of the OZON pager\<close>

lemma seller_page_loop_step:
  "seller_page_loop env lid pl s =
     (case page_step env (lid, pl, s) of
        Inl r \<Rightarrow> Some r
      | Inr (lid', pl', s') \<Rightarrow> seller_page_loop env lid' pl' s')"
  by (subst seller_page_loop.simps)
    (simp add: page_step_def split: prod.splits sum.splits option.splits)

lemma run_passes_exit:
  "run_passes env k (lid, pl, s) = Inl r \<Longrightarrow> seller_page_loop env lid pl s = Some r"
proof (induction k arbitrary: lid pl s)
  case 0
  then show ?case by simp
next
  case (Suc k)
  show ?case
  proof (cases "page_step env (lid, pl, s)")
    case (Inl r')
    with Suc.prems have "r' = r" by simp
    with Inl show ?thesis by (subst seller_page_loop_step) simp
  next
    case (Inr v')
    obtain lid' pl' s' where v': "v' = (lid', pl', s')" by (cases v') auto
    from Suc.prems Inr v' have "run_passes env k (lid', pl', s') = Inl r" by simp
    from Suc.IH [OF this] Inr v' show ?thesis by (subst seller_page_loop_step) simp
  qed
qed

lemma seller_page_loop_exit:
  assumes "seller_page_loop env lid pl s = Some r"
  shows "\<exists>k. run_passes env k (lid, pl, s) = Inl r"
proof (rule seller_page_loop.raw_induct
    [where P = "\<lambda>env lid pl s r. \<exists>k. run_passes env k (lid, pl, s) = Inl r", OF _ assms])
  fix loop :: "'a ozon_env \<Rightarrow> pyval \<Rightarrow> pydict list \<Rightarrow> 'a \<Rightarrow> ((error + pydict list) \<times> 'a) option"
  fix env lid pl s r
  assume IH: "\<And>env lid pl s r. loop env lid pl s = Some r \<Longrightarrow>
                 \<exists>k. run_passes env k (lid, pl, s) = Inl r"
  assume body: "(case product_list_ep env lid s of
        (Inl e, s1) \<Rightarrow> Some (Inl e, s1)
      | (Inr None, s1) \<Rightarrow> Some (Inl AttributeError, s1)
      | (Inr (Some some_prod), s1) \<Rightarrow>
          (case page_items some_prod of
             None \<Rightarrow> Some (Inl TypeError, s1)
           | Some its \<Rightarrow>
               if total some_prod = PInt (int (length (pl @ its)))
               then Some (Inr (pl @ its), s1)
               else loop env (last_id some_prod) (pl @ its) s1)) = Some r"
  show "\<exists>k. run_passes env k (lid, pl, s) = Inl r"
  proof (cases "page_step env (lid, pl, s)")
    case (Inl r')
    with body have "r' = r"
      by (auto simp: page_step_def split: prod.splits sum.splits option.splits if_splits)
    with Inl have "run_passes env (Suc 0) (lid, pl, s) = Inl r" by simp
    then show ?thesis by (rule exI)
  next
    case (Inr v')
    obtain lid' pl' s' where v': "v' = (lid', pl', s')" by (cases v') auto
    from Inr v' body have "loop env lid' pl' s' = Some r"
      by (auto simp: page_step_def split: prod.splits sum.splits option.splits if_splits)
    from IH [OF this] obtain k where "run_passes env k (lid', pl', s') = Inl r" by blast
    with Inr v' have "run_passes env (Suc k) (lid, pl, s) = Inl r" by simp
    then show ?thesis by (rule exI)
  qed
qed

lemma page_step_ok:
  assumes "page_ok env v"
  shows "page_step env v =
     (if reported_total env v = PInt (int (length (fst (snd (next_vars env v)))))
      then Inl (Inr (fst (snd (next_vars env v))), snd (snd (next_vars env v)))
      else Inr (next_vars env v))"
  using assms
  by (auto simp: page_ok_def page_step_def next_vars_def reported_total_def
      split: prod.splits sum.splits option.splits)

lemma page_step_not_ok:
  assumes "\<not> page_ok env v"
  shows "\<exists>e t. page_step env v = Inl (Inl e, t)"
  using assms
  by (auto simp: page_ok_def page_step_def split: prod.splits sum.splits option.splits)

lemma run_passes_continue:
  "(\<forall>j < k. page_ok env ((next_vars env ^^ j) v)
       \<and> reported_total env ((next_vars env ^^ j) v)
              \<noteq> PInt (int (length (fst (snd ((next_vars env ^^ Suc j) v))))))
     \<Longrightarrow> run_passes env k v = Inr ((next_vars env ^^ k) v)"
proof (induction k arbitrary: v)
  case 0
  show ?case by simp
next
  case (Suc k)
  from Suc.prems have "page_ok env ((next_vars env ^^ 0) v)
     \<and> reported_total env ((next_vars env ^^ 0) v)
     \<noteq> PInt (int (length (fst (snd ((next_vars env ^^ Suc 0) v)))))" by blast
  then have s: "page_step env v = Inr (next_vars env v)"
    by (simp add: page_step_ok)
  have "\<forall>j < k. page_ok env ((next_vars env ^^ j) (next_vars env v))
       \<and> reported_total env ((next_vars env ^^ j) (next_vars env v))
              \<noteq> PInt (int (length (fst (snd ((next_vars env ^^ Suc j) (next_vars env v))))))"
  proof (intro allI impI)
    fix j assume "j < k"
    then have "Suc j < Suc k" by simp
    with Suc.prems have "page_ok env ((next_vars env ^^ Suc j) v)
      \<and> reported_total env ((next_vars env ^^ Suc j) v)
      \<noteq> PInt (int (length (fst (snd ((next_vars env ^^ Suc (Suc j)) v)))))" by blast
    then show "page_ok env ((next_vars env ^^ j) (next_vars env v))
       \<and> reported_total env ((next_vars env ^^ j) (next_vars env v))
              \<noteq> PInt (int (length (fst (snd ((next_vars env ^^ Suc j) (next_vars env v))))))"
      by (simp add: funpow_swap1)
  qed
  from Suc.IH [OF this] s show ?case by (simp add: funpow_swap1)
qed

lemma run_passes_Suc:
  "run_passes env (Suc k) v =
     (case run_passes env k v of Inl r \<Rightarrow> Inl r | Inr v' \<Rightarrow> page_step env v')"
proof (induction k arbitrary: v)
  case 0
  show ?case by (simp split: sum.splits)
next
  case (Suc k)
  show ?case
  proof (cases "page_step env v")
    case (Inl r)
    then show ?thesis by simp
  next
    case (Inr v')
    with Suc.IH [of v'] show ?thesis by simp
  qed
qed

lemma example_offer_ids:
  "seller_get_offer_ids example_env s = Some (Inr example_catalog, s @ [ListCall (PStr [])])"
proof -
  have "page_step example_env (PStr [], [], s) =
          Inl (Inr [[lit ''offer_id'' \<mapsto> PStr (lit ''A'')], [lit ''offer_id'' \<mapsto> PStr (lit ''B'')],
                    [lit ''offer_id'' \<mapsto> PStr (lit ''C'')]], s @ [ListCall (PStr [])])"
    by (simp add: page_step_def example_env_def example_page_def)
  then have "seller_page_loop example_env (PStr []) [] s =
          Some (Inr [[lit ''offer_id'' \<mapsto> PStr (lit ''A'')], [lit ''offer_id'' \<mapsto> PStr (lit ''B'')],
                    [lit ''offer_id'' \<mapsto> PStr (lit ''C'')]], s @ [ListCall (PStr [])])"
    by (subst seller_page_loop_step) simp
  then show ?thesis
    by (simp add: seller_get_offer_ids_def example_catalog_def dict_get_def)
qed

text \<open>
  What the pager does is decided by the first pass that leaves the loop: a pass leaves it
  when its request is not answered with a page of items (the exception propagates) or when
  its test holds (the function returns).
\<close>

lemma pager_first_exit:
  assumes first: "\<forall>j < k. answered env s j \<and> \<not> count_is_total env s j"
  shows "(answered env s k \<and> count_is_total env s k \<longrightarrow>
            seller_get_offer_ids env s =
              Some (Inr (map (\<lambda>product. dict_get product (lit ''offer_id''))
                           (accumulated env s (Suc k))),
                    snd (snd (vars_after env s (Suc k)))))
     \<and> (\<not> answered env s k \<longrightarrow> (\<exists>e t. seller_get_offer_ids env s = Some (Inl e, t)))"
proof -
  define v0 :: "'a pager_vars" where "v0 = (PStr [], [], s)"
  have an: "answered env s j = page_ok env ((next_vars env ^^ j) v0)" for j
    by (simp only: answered_def vars_after_def v0_def)
  have ct: "count_is_total env s j \<longleftrightarrow>
      reported_total env ((next_vars env ^^ j) v0)
        = PInt (int (length (fst (snd ((next_vars env ^^ Suc j) v0)))))" for j
    by (simp only: count_is_total_def accumulated_def vars_after_def v0_def)
  from first have "\<forall>j < k. page_ok env ((next_vars env ^^ j) v0)
       \<and> reported_total env ((next_vars env ^^ j) v0)
              \<noteq> PInt (int (length (fst (snd ((next_vars env ^^ Suc j) v0)))))"
    unfolding an ct by blast
  then have "run_passes env k v0 = Inr ((next_vars env ^^ k) v0)"
    by (rule run_passes_continue)
  then have r: "run_passes env (Suc k) v0 = page_step env ((next_vars env ^^ k) v0)"
    by (simp only: run_passes_Suc sum.case)
  have a: "seller_get_offer_ids env s =
              Some (Inr (map (\<lambda>product. dict_get product (lit ''offer_id''))
                           (accumulated env s (Suc k))),
                    snd (snd (vars_after env s (Suc k))))"
    if "answered env s k \<and> count_is_total env s k"
  proof -
    from that have ok: "page_ok env ((next_vars env ^^ k) v0)"
      and t: "reported_total env ((next_vars env ^^ k) v0)
        = PInt (int (length (fst (snd ((next_vars env ^^ Suc k) v0)))))"
      unfolding an ct by blast+
    have "page_step env ((next_vars env ^^ k) v0)
        = Inl (Inr (fst (snd ((next_vars env ^^ Suc k) v0))),
               snd (snd ((next_vars env ^^ Suc k) v0)))"
      using t by (simp add: page_step_ok [OF ok])
    with r have "run_passes env (Suc k) (PStr [], [], s)
        = Inl (Inr (fst (snd ((next_vars env ^^ Suc k) v0))),
               snd (snd ((next_vars env ^^ Suc k) v0)))"
      by (simp add: v0_def)
    then have "seller_page_loop env (PStr []) [] s =
        Some (Inr (fst (snd ((next_vars env ^^ Suc k) v0))),
              snd (snd ((next_vars env ^^ Suc k) v0)))"
      by (rule run_passes_exit)
    then show ?thesis
      by (simp add: seller_get_offer_ids_def accumulated_def vars_after_def v0_def)
  qed
  have b: "\<exists>e t. seller_get_offer_ids env s = Some (Inl e, t)" if "\<not> answered env s k"
  proof -
    from that have "\<not> page_ok env ((next_vars env ^^ k) v0)" by (simp add: an)
    from page_step_not_ok [OF this] obtain e t
      where "page_step env ((next_vars env ^^ k) v0) = Inl (Inl e, t)" by blast
    with r have "run_passes env (Suc k) (PStr [], [], s) = Inl (Inl e, t)"
      by (simp add: v0_def)
    then have "seller_page_loop env (PStr []) [] s = Some (Inl e, t)"
      by (rule run_passes_exit)
    then have "seller_get_offer_ids env s = Some (Inl e, t)"
      by (simp add: seller_get_offer_ids_def)
    then show ?thesis by blast
  qed
  from a b show ?thesis by blast
qed

lemma pager_never_exits:
  assumes "\<forall>k. answered env s k \<and> \<not> count_is_total env s k"
  shows "seller_get_offer_ids env s = None"
proof (rule ccontr)
  define v0 :: "'a pager_vars" where "v0 = (PStr [], [], s)"
  have an: "answered env s j = page_ok env ((next_vars env ^^ j) v0)" for j
    by (simp only: answered_def vars_after_def v0_def)
  have ct: "count_is_total env s j \<longleftrightarrow>
      reported_total env ((next_vars env ^^ j) v0)
        = PInt (int (length (fst (snd ((next_vars env ^^ Suc j) v0)))))" for j
    by (simp only: count_is_total_def accumulated_def vars_after_def v0_def)
  assume "seller_get_offer_ids env s \<noteq> None"
  then obtain r where "seller_page_loop env (PStr []) [] s = Some r"
    by (auto simp: seller_get_offer_ids_def split: option.splits)
  from seller_page_loop_exit [OF this] obtain k where e: "run_passes env k v0 = Inl r"
    unfolding v0_def by blast
  from assms have "\<forall>j < k. page_ok env ((next_vars env ^^ j) v0)
       \<and> reported_total env ((next_vars env ^^ j) v0)
              \<noteq> PInt (int (length (fst (snd ((next_vars env ^^ Suc j) v0)))))"
    unfolding an ct by blast
  from run_passes_continue [OF this] e show False by simp
qed

lemma first_exit_exists:
  assumes "\<not> (answered env s k \<and> \<not> count_is_total env s k)"
  shows "\<exists>m \<le> k. \<not> (answered env s m \<and> \<not> count_is_total env s m)
           \<and> (\<forall>j < m. answered env s j \<and> \<not> count_is_total env s j)"
proof -
  define m where "m = (LEAST m. \<not> (answered env s m \<and> \<not> count_is_total env s m))"
  have 1: "\<not> (answered env s m \<and> \<not> count_is_total env s m)"
    unfolding m_def using assms by (rule LeastI)
  have 2: "m \<le> k" unfolding m_def using assms by (rule Least_le)
  have 3: "\<forall>j < m. answered env s j \<and> \<not> count_is_total env s j"
    unfolding m_def using not_less_Least by blast
  from 1 2 3 show ?thesis by blast
qed

text \<open>
  C10, as the code has it. seller.get_offer_ids returns a list if and only if some pass,
  reached with every request so far answered by a page of items, finds that the number of
  items accumulated equals the total reported by the page just fetched; it returns, at the
  first such pass, the \<open>offer_id\<close> of every accumulated item in the order of the pages. It
  never returns if and only if every request is answered and no pass meets the test. The
  one other way out is an exception: the call fails if and only if some request is not
  answered with a page of items before any pass has met the test.
\<close>

theorem seller_get_offer_ids_exits:
  "((\<exists>ids t. seller_get_offer_ids env s = Some (Inr ids, t))
       = (\<exists>k. count_is_total env s k \<and> (\<forall>j \<le> k. answered env s j)))
   \<and> (\<forall>k. count_is_total env s k \<and> (\<forall>j \<le> k. answered env s j)
            \<and> (\<forall>j < k. \<not> count_is_total env s j) \<longrightarrow>
          seller_get_offer_ids env s =
            Some (Inr (map (\<lambda>product. dict_get product (lit ''offer_id''))
                         (accumulated env s (Suc k))),
                  snd (snd (vars_after env s (Suc k)))))
   \<and> ((seller_get_offer_ids env s = None)
       = (\<forall>k. answered env s k \<and> \<not> count_is_total env s k))
   \<and> ((\<exists>e t. seller_get_offer_ids env s = Some (Inl e, t))
       = (\<exists>k. \<not> answered env s k \<and> (\<forall>j < k. answered env s j \<and> \<not> count_is_total env s j)))"
proof -
  let ?get = "seller_get_offer_ids env s"
  have ret: "?get = Some (Inr (map (\<lambda>product. dict_get product (lit ''offer_id''))
                         (accumulated env s (Suc k))),
                  snd (snd (vars_after env s (Suc k))))"
    if "count_is_total env s k" "\<forall>j \<le> k. answered env s j" "\<forall>j < k. \<not> count_is_total env s j"
    for k
  proof -
    from that have "\<forall>j < k. answered env s j \<and> \<not> count_is_total env s j" by simp
    from pager_first_exit [OF this] that show ?thesis by simp
  qed
  have c1: "(\<exists>ids t. ?get = Some (Inr ids, t))
       = (\<exists>k. count_is_total env s k \<and> (\<forall>j \<le> k. answered env s j))"
  proof
    assume "\<exists>ids t. ?get = Some (Inr ids, t)"
    then obtain ids t where g: "?get = Some (Inr ids, t)" by blast
    have "\<exists>k. \<not> (answered env s k \<and> \<not> count_is_total env s k)"
    proof (rule ccontr)
      assume "\<not> (\<exists>k. \<not> (answered env s k \<and> \<not> count_is_total env s k))"
      then have "\<forall>k. answered env s k \<and> \<not> count_is_total env s k" by blast
      from pager_never_exits [OF this] g show False by simp
    qed
    then obtain k where "\<not> (answered env s k \<and> \<not> count_is_total env s k)" by blast
    from first_exit_exists [OF this] obtain m
      where m: "\<not> (answered env s m \<and> \<not> count_is_total env s m)"
        "\<forall>j < m. answered env s j \<and> \<not> count_is_total env s j" by blast
    have am: "answered env s m"
    proof (rule ccontr)
      assume "\<not> answered env s m"
      with pager_first_exit [OF m(2)] obtain e t' where "?get = Some (Inl e, t')" by blast
      with g show False by simp
    qed
    with m(1) have "count_is_total env s m" by simp
    moreover from am m(2) have "\<forall>j \<le> m. answered env s j"
      by (auto simp: le_less)
    ultimately show "\<exists>k. count_is_total env s k \<and> (\<forall>j \<le> k. answered env s j)" by blast
  next
    assume "\<exists>k. count_is_total env s k \<and> (\<forall>j \<le> k. answered env s j)"
    then obtain k where k: "count_is_total env s k" "\<forall>j \<le> k. answered env s j" by blast
    then have "\<not> (answered env s k \<and> \<not> count_is_total env s k)" by simp
    from first_exit_exists [OF this] obtain m where m: "m \<le> k"
        "\<not> (answered env s m \<and> \<not> count_is_total env s m)"
        "\<forall>j < m. answered env s j \<and> \<not> count_is_total env s j" by blast
    from m(1) k(2) have am: "answered env s m" by simp
    with m(2) have "count_is_total env s m" by simp
    with pager_first_exit [OF m(3)] am show "\<exists>ids t. ?get = Some (Inr ids, t)" by simp
  qed
  have c3: "(?get = None) = (\<forall>k. answered env s k \<and> \<not> count_is_total env s k)"
  proof
    assume n: "?get = None"
    show "\<forall>k. answered env s k \<and> \<not> count_is_total env s k"
    proof (rule ccontr)
      assume "\<not> (\<forall>k. answered env s k \<and> \<not> count_is_total env s k)"
      then obtain k where "\<not> (answered env s k \<and> \<not> count_is_total env s k)" by blast
      from first_exit_exists [OF this] obtain m
        where m: "\<not> (answered env s m \<and> \<not> count_is_total env s m)"
          "\<forall>j < m. answered env s j \<and> \<not> count_is_total env s j" by blast
      from pager_first_exit [OF m(2)] m(1) have "?get \<noteq> None" by (cases "answered env s m") auto
      with n show False by simp
    qed
  next
    assume "\<forall>k. answered env s k \<and> \<not> count_is_total env s k"
    then show "?get = None" by (rule pager_never_exits)
  qed
  have c4: "(\<exists>e t. ?get = Some (Inl e, t))
       = (\<exists>k. \<not> answered env s k \<and> (\<forall>j < k. answered env s j \<and> \<not> count_is_total env s j))"
  proof
    assume "\<exists>e t. ?get = Some (Inl e, t)"
    then obtain e t where g: "?get = Some (Inl e, t)" by blast
    have "\<exists>k. \<not> (answered env s k \<and> \<not> count_is_total env s k)"
    proof (rule ccontr)
      assume "\<not> (\<exists>k. \<not> (answered env s k \<and> \<not> count_is_total env s k))"
      then have "\<forall>k. answered env s k \<and> \<not> count_is_total env s k" by blast
      from pager_never_exits [OF this] g show False by simp
    qed
    then obtain k where "\<not> (answered env s k \<and> \<not> count_is_total env s k)" by blast
    from first_exit_exists [OF this] obtain m
      where m: "\<not> (answered env s m \<and> \<not> count_is_total env s m)"
        "\<forall>j < m. answered env s j \<and> \<not> count_is_total env s j" by blast
    have "\<not> answered env s m"
    proof
      assume am: "answered env s m"
      with m(1) have "count_is_total env s m" by simp
      with pager_first_exit [OF m(2)] am obtain ids t' where "?get = Some (Inr ids, t')" by simp
      with g show False by simp
    qed
    with m(2) show "\<exists>k. \<not> answered env s k
        \<and> (\<forall>j < k. answered env s j \<and> \<not> count_is_total env s j)" by blast
  next
    assume "\<exists>k. \<not> answered env s k \<and> (\<forall>j < k. answered env s j \<and> \<not> count_is_total env s j)"
    then obtain k where "\<not> answered env s k"
      "\<forall>j < k. answered env s j \<and> \<not> count_is_total env s j" by blast
    with pager_first_exit [OF this(2)] show "\<exists>e t. ?get = Some (Inl e, t)" by simp
  qed
  from c1 c3 c4 ret show ?thesis by (intro conjI allI impI) simp_all
qed

theorem seller_get_offer_ids_exits_witness:
  "count_is_total example_env [] 0 \<and> answered example_env [] 0
   \<and> seller_get_offer_ids example_env [] = Some (Inr example_catalog, [ListCall (PStr [])])
   \<and> seller_get_offer_ids no_total_env [] = None
   \<and> \<not> answered err_env [] 0
   \<and> (\<exists>e t. seller_get_offer_ids err_env [] = Some (Inl e, t))"
proof -
  have a: "answered example_env [] 0"
    by (simp add: answered_def page_ok_def vars_after_def example_env_def example_page_def)
  have c: "count_is_total example_env [] 0"
    by (simp add: count_is_total_def accumulated_def vars_after_def next_vars_def
        reported_total_def example_env_def example_page_def)
  have "\<forall>j \<le> 0. answered example_env [] j" using a by simp
  with c seller_get_offer_ids_exits [of example_env "[]"]
  have 1: "\<exists>ids t. seller_get_offer_ids example_env [] = Some (Inr ids, t)" by blast
  have n: "\<forall>k. answered no_total_env [] k \<and> \<not> count_is_total no_total_env [] k"
  proof -
    have "page_ok no_total_env v" for v
      by (cases v) (simp add: page_ok_def no_total_env_def example_env_def example_page_def)
    moreover have "reported_total no_total_env v = PNone" for v
      by (cases v) (simp add: reported_total_def no_total_env_def example_env_def)
    ultimately show ?thesis by (simp add: answered_def count_is_total_def)
  qed
  with seller_get_offer_ids_exits [of no_total_env "[]"]
  have 2: "seller_get_offer_ids no_total_env [] = None" by blast
  have e: "\<not> answered err_env [] 0"
    by (simp add: answered_def page_ok_def vars_after_def err_env_def example_env_def)
  then have "\<exists>k. \<not> answered err_env [] k
      \<and> (\<forall>j < k. answered err_env [] j \<and> \<not> count_is_total err_env [] j)"
    by (intro exI [of _ 0]) simp
  with seller_get_offer_ids_exits [of err_env "[]"]
  have 3: "\<exists>e t. seller_get_offer_ids err_env [] = Some (Inl e, t)" by blast
  from a c 1 2 e 3 example_offer_ids [of "[]"] show ?thesis by simp
qed

text \<open>
  C10, as the claim states it, fails: when the first request is answered with an HTTP
  error, the loop is left by the exception although no count has equalled a total.
\<close>

theorem seller_get_offer_ids_counterexample:
  "seller_get_offer_ids err_env [] = Some (Inl HTTPError, [ListCall (PStr [])])
   \<and> \<not> answered err_env [] 0"
proof -
  have "page_step err_env (PStr [], [], []) = Inl (Inl HTTPError, [ListCall (PStr [])])"
    by (simp add: page_step_def err_env_def example_env_def)
  then have "seller_page_loop err_env (PStr []) [] [] =
      Some (Inl HTTPError, [ListCall (PStr [])])"
    by (subst seller_page_loop_step) simp
  then have "seller_get_offer_ids err_env [] = Some (Inl HTTPError, [ListCall (PStr [])])"
    by (simp add: seller_get_offer_ids_def)
  moreover have "\<not> answered err_env [] 0"
    by (simp add: answered_def page_ok_def vars_after_def err_env_def example_env_def)
  ultimately show ?thesis by simp
qed

section \<open>The caller's catalog list after create_stocks\<close>

lemma seller_price_loop_no_match:
  "\<forall>w \<in> set F. code_of w \<notin> set ids \<Longrightarrow> seller_price_loop F acc ids = Inr acc"
  by (induction F arbitrary: acc) simp_all

lemma seller_prices_after_stocks:
  assumes "distinct C" and "seller_create_stocks F C = (Inr stocks, C')"
  shows "seller_create_prices F C' = Inr []"
proof -
  from assms(2) obtain st0 where l: "seller_match_loop F [] C = (Inr st0, C')"
    by (auto simp: seller_create_stocks_def split: prod.splits sum.splits)
  from seller_match_loop_first [OF l assms(1)]
  have b: "\<forall>c \<in> set C'. find (\<lambda>w. code_of w = c) F = None" by auto
  have "\<forall>w \<in> set F. code_of w \<notin> set C'"
  proof (intro ballI notI)
    fix w assume "w \<in> set F" "code_of w \<in> set C'"
    with b have "find (\<lambda>x. code_of x = code_of w) F = None" by blast
    with \<open>w \<in> set F\<close> show False unfolding find_None_iff by blast
  qed
  then show ?thesis
    by (simp add: seller_create_prices_def seller_price_loop_no_match)
qed

lemma ceil_div_one:
  assumes "0 < (L::nat)" and "L \<le> m"
  shows "(L + m - 1) div m = 1"
proof -
  have m: "0 < m" using assms by simp
  have "L + m - 1 = (L - 1) + 1 * m" using assms(1) by simp
  then have "(L + m - 1) div m = (L - 1) div m + 1"
    using m by (simp only: div_mult_self1)
  moreover have "(L - 1) div m = 0" using assms by simp
  ultimately show ?thesis by simp
qed

lemma divide_one_chunk:
  assumes "lst \<noteq> []" and "int (length lst) \<le> n"
  shows "divide lst n = Inr [lst]"
proof -
  have l: "0 < length lst" using assms(1) by simp
  then have "0 < int (length lst)" by simp
  with assms(2) have n: "0 < n" by linarith
  have "length lst \<le> nat n" using assms(2) by simp
  with l have "(length lst + nat n - 1) div nat n = 1" by (rule ceil_div_one)
  with n \<open>length lst \<le> nat n\<close> show ?thesis by (simp add: divide_def range0_def)
qed

lemma divide_Nil: "divide [] n = (if n = 0 then Inl ValueError else Inr [])"
  by (simp add: divide_def range0_def)

lemma example_feed_prices:
  "seller_create_prices example_feed example_catalog =
     Inr [\<lparr>auto_action_enabled = lit ''UNKNOWN'', currency_code = lit ''RUB'',
            price_offer_id = PStr (lit ''A''), old_price = lit ''0'', price = lit ''100''\<rparr>,
          \<lparr>auto_action_enabled = lit ''UNKNOWN'', currency_code = lit ''RUB'',
            price_offer_id = PStr (lit ''B''), old_price = lit ''0'', price = lit ''50''\<rparr>]"
  "seller_create_prices example_feed [PStr (lit ''C'')] = Inr []"
  by (simp_all add: seller_create_prices_def example_feed_def example_catalog_def example_rows)
    (simp_all add: lit_def)

text \<open>
  C4 fails on the code. \<open>create_stocks\<close> removes the matched identifiers from the list
  object that the caller passed in. seller.main passes the same list to \<open>create_prices\<close>
  afterwards: in the running example the list is down to \<open>[C]\<close>, no row matches, and main
  sends the stock update but no price update at all, whereas \<open>upload_prices\<close>, which fetches
  the catalog itself, sends the prices of \<open>A\<close> and \<open>B\<close>.
\<close>

theorem seller_main_sends_no_prices:
  "snd (seller_create_stocks example_feed example_catalog) = [PStr (lit ''C'')]
   \<and> seller_main example_env [] =
       Some (None, [ListCall (PStr []), DownloadCall,
                    StocksCall [\<lparr>offer_id = PStr (lit ''A''), stock = 100\<rparr>,
                                \<lparr>offer_id = PStr (lit ''B''), stock = 0\<rparr>,
                                \<lparr>offer_id = PStr (lit ''C''), stock = 0\<rparr>]])
   \<and> seller_upload_prices example_env example_feed [] =
       Some (Inr [\<lparr>auto_action_enabled = lit ''UNKNOWN'', currency_code = lit ''RUB'',
                   price_offer_id = PStr (lit ''A''), old_price = lit ''0'', price = lit ''100''\<rparr>,
                  \<lparr>auto_action_enabled = lit ''UNKNOWN'', currency_code = lit ''RUB'',
                   price_offer_id = PStr (lit ''B''), old_price = lit ''0'', price = lit ''50''\<rparr>],
             [ListCall (PStr []),
              PricesCall
                [\<lparr>auto_action_enabled = lit ''UNKNOWN'', currency_code = lit ''RUB'',
                   price_offer_id = PStr (lit ''A''), old_price = lit ''0'', price = lit ''100''\<rparr>,
                 \<lparr>auto_action_enabled = lit ''UNKNOWN'', currency_code = lit ''RUB'',
                   price_offer_id = PStr (lit ''B''), old_price = lit ''0'', price = lit ''50''\<rparr>]])"
proof -
  have ep: "download_stock_ep example_env = (\<lambda>s. (Inr example_feed, s @ [DownloadCall]))"
    "import_stocks_ep example_env = (\<lambda>chunk s. (Inr (), s @ [StocksCall chunk]))"
    "import_prices_ep example_env = (\<lambda>chunk s. (Inr (), s @ [PricesCall chunk]))"
    by (simp_all add: example_env_def)
  have m: "seller_main example_env [] =
       Some (None, [ListCall (PStr []), DownloadCall,
                    StocksCall [\<lparr>offer_id = PStr (lit ''A''), stock = 100\<rparr>,
                                \<lparr>offer_id = PStr (lit ''B''), stock = 0\<rparr>,
                                \<lparr>offer_id = PStr (lit ''C''), stock = 0\<rparr>]])"
    by (simp add: seller_main_def example_offer_ids ep example_stocks example_feed_prices
        upload_all_def divide_one_chunk divide_Nil)
  have p: "seller_upload_prices example_env example_feed [] =
       Some (Inr [\<lparr>auto_action_enabled = lit ''UNKNOWN'', currency_code = lit ''RUB'',
                   price_offer_id = PStr (lit ''A''), old_price = lit ''0'', price = lit ''100''\<rparr>,
                  \<lparr>auto_action_enabled = lit ''UNKNOWN'', currency_code = lit ''RUB'',
                   price_offer_id = PStr (lit ''B''), old_price = lit ''0'', price = lit ''50''\<rparr>],
             [ListCall (PStr []),
              PricesCall
                [\<lparr>auto_action_enabled = lit ''UNKNOWN'', currency_code = lit ''RUB'',
                   price_offer_id = PStr (lit ''A''), old_price = lit ''0'', price = lit ''100''\<rparr>,
                 \<lparr>auto_action_enabled = lit ''UNKNOWN'', currency_code = lit ''RUB'',
                   price_offer_id = PStr (lit ''B''), old_price = lit ''0'', price = lit ''50''\<rparr>]])"
    by (simp add: seller_upload_prices_def example_offer_ids ep example_feed_prices
        upload_all_def divide_one_chunk divide_Nil)
  from m p show ?thesis by (simp add: example_stocks)
qed

section \<open>Running the upload twice\<close>

lemma seller_upload_stocks_Inr:
  assumes "seller_upload_stocks env F s = Some (Inr (ne, st), u)"
  shows "\<exists>ids t C'. seller_get_offer_ids env s = Some (Inr ids, t)
           \<and> seller_create_stocks F ids = (Inr st, C')
           \<and> ne = filter (\<lambda>r. stock r \<noteq> 0) st"
  using assms unfolding seller_upload_stocks_def
  by (auto split: option.splits prod.splits sum.splits)

lemma seller_upload_prices_Inr:
  assumes "seller_upload_prices env F s = Some (Inr p, u)"
  shows "\<exists>ids t. seller_get_offer_ids env s = Some (Inr ids, t)
           \<and> seller_create_prices F ids = Inr p"
  using assms unfolding seller_upload_prices_def
  by (auto split: option.splits prod.splits sum.splits)

lemma with_date_to_market: "with_date d (to_market d' wh r) = to_market d wh r"
  by (simp add: with_date_def to_market_def)

lemma example_upload_stocks:
  "seller_upload_stocks example_env example_feed s =
     Some (Inr ([\<lparr>offer_id = PStr (lit ''A''), stock = 100\<rparr>],
                [\<lparr>offer_id = PStr (lit ''A''), stock = 100\<rparr>, \<lparr>offer_id = PStr (lit ''B''), stock = 0\<rparr>,
                 \<lparr>offer_id = PStr (lit ''C''), stock = 0\<rparr>]),
           s @ [ListCall (PStr []),
                StocksCall [\<lparr>offer_id = PStr (lit ''A''), stock = 100\<rparr>,
                            \<lparr>offer_id = PStr (lit ''B''), stock = 0\<rparr>,
                            \<lparr>offer_id = PStr (lit ''C''), stock = 0\<rparr>]])"
proof -
  have ep: "import_stocks_ep example_env = (\<lambda>chunk s. (Inr (), s @ [StocksCall chunk]))"
    by (simp add: example_env_def)
  show ?thesis
    by (simp add: seller_upload_stocks_def example_offer_ids ep example_stocks
        upload_all_def divide_one_chunk)
qed

text \<open>
  C9. The records that \<open>upload_stocks\<close> and \<open>upload_prices\<close> return depend on the state of
  the marketplace only through the catalog that the pager reads: two runs on the same
  feed, the second from any later state \<open>s'\<close> in which the pager returns the same catalog,
  return the same stock records (the full list and the non-zero ones) and the same price
  records, whatever the uploads of the first run changed. OZON records carry no timestamp;
  for Yandex Market the records built at two different dates are equal once their dates
  are made equal.
\<close>

theorem upload_twice_same_records:
  assumes "map_option fst (seller_get_offer_ids env s') = map_option fst (seller_get_offer_ids env s)"
  shows "(\<forall>r r' u u'. seller_upload_stocks env F s = Some (Inr r, u)
             \<and> seller_upload_stocks env F s' = Some (Inr r', u') \<longrightarrow> r' = r)
     \<and> (\<forall>p p' u u'. seller_upload_prices env F s = Some (Inr p, u)
             \<and> seller_upload_prices env F s' = Some (Inr p', u') \<longrightarrow> p' = p)
     \<and> (\<forall>d d' C wh st st' C1 C2. market_create_stocks d F C wh = (Inr st, C1)
             \<and> market_create_stocks d' F C wh = (Inr st', C2)
             \<longrightarrow> map (with_date d) st' = st \<and> C2 = C1)"
proof -
  have a: "r' = r"
    if "seller_upload_stocks env F s = Some (Inr r, u)"
      and "seller_upload_stocks env F s' = Some (Inr r', u')" for r r' u u'
  proof -
    obtain ne st where r: "r = (ne, st)" by (cases r)
    obtain ne' st' where r': "r' = (ne', st')" by (cases r')
    from seller_upload_stocks_Inr [OF that(1) [unfolded r]] obtain ids t C1
      where 1: "seller_get_offer_ids env s = Some (Inr ids, t)"
        "seller_create_stocks F ids = (Inr st, C1)" "ne = filter (\<lambda>r. stock r \<noteq> 0) st"
      by blast
    from seller_upload_stocks_Inr [OF that(2) [unfolded r']] obtain ids' t' C2
      where 2: "seller_get_offer_ids env s' = Some (Inr ids', t')"
        "seller_create_stocks F ids' = (Inr st', C2)" "ne' = filter (\<lambda>r. stock r \<noteq> 0) st'"
      by blast
    from assms 1(1) 2(1) have "ids' = ids" by simp
    with 1 2 r r' show ?thesis by simp
  qed
  have b: "p' = p"
    if "seller_upload_prices env F s = Some (Inr p, u)"
      and "seller_upload_prices env F s' = Some (Inr p', u')" for p p' u u'
  proof -
    from seller_upload_prices_Inr [OF that(1)] obtain ids t
      where 1: "seller_get_offer_ids env s = Some (Inr ids, t)" "seller_create_prices F ids = Inr p"
      by blast
    from seller_upload_prices_Inr [OF that(2)] obtain ids' t'
      where 2: "seller_get_offer_ids env s' = Some (Inr ids', t')" "seller_create_prices F ids' = Inr p'"
      by blast
    from assms 1(1) 2(1) have "ids' = ids" by simp
    with 1 2 show ?thesis by simp
  qed
  have c: "map (with_date d) st' = st \<and> C2 = C1"
    if "market_create_stocks d F C wh = (Inr st, C1)"
      and "market_create_stocks d' F C wh = (Inr st', C2)" for d d' C wh st st' C1 C2
  proof -
    from market_create_stocks_Inr [OF that(1)] obtain x
      where 1: "seller_create_stocks F C = (Inr x, C1)" "st = map (to_market d wh) x" by blast
    from market_create_stocks_Inr [OF that(2)] obtain x'
      where 2: "seller_create_stocks F C = (Inr x', C2)" "st' = map (to_market d' wh) x'" by blast
    from 1(1) 2(1) have "x' = x" "C2 = C1" by simp_all
    with 1(2) 2(2) show ?thesis by (simp add: with_date_to_market comp_def)
  qed
  show ?thesis
  proof (intro conjI allI impI)
    fix r r' :: "ozon_stock list \<times> ozon_stock list" and u u'
    assume "seller_upload_stocks env F s = Some (Inr r, u)
             \<and> seller_upload_stocks env F s' = Some (Inr r', u')"
    then show "r' = r" using a by blast
  next
    fix p p' u u'
    assume "seller_upload_prices env F s = Some (Inr p, u)
             \<and> seller_upload_prices env F s' = Some (Inr p', u')"
    then show "p' = p" using b by blast
  next
    fix d d' C wh st st' C1 C2
    assume h: "market_create_stocks d F C wh = (Inr st, C1)
             \<and> market_create_stocks d' F C wh = (Inr st', C2)"
    then show "map (with_date d) st' = st" using c by blast
    from h show "C2 = C1" using c by blast
  qed
qed

theorem upload_twice_same_records_witness:
  "map_option fst (seller_get_offer_ids example_env
       [ListCall (PStr []),
        StocksCall [\<lparr>offer_id = PStr (lit ''A''), stock = 100\<rparr>, \<lparr>offer_id = PStr (lit ''B''), stock = 0\<rparr>,
                    \<lparr>offer_id = PStr (lit ''C''), stock = 0\<rparr>]])
     = map_option fst (seller_get_offer_ids example_env [])
   \<and> (\<exists>r u r' u'. seller_upload_stocks example_env example_feed [] = Some (Inr r, u)
         \<and> u = [ListCall (PStr []),
                 StocksCall [\<lparr>offer_id = PStr (lit ''A''), stock = 100\<rparr>,
                             \<lparr>offer_id = PStr (lit ''B''), stock = 0\<rparr>,
                             \<lparr>offer_id = PStr (lit ''C''), stock = 0\<rparr>]]
         \<and> seller_upload_stocks example_env example_feed u = Some (Inr r', u')
         \<and> r' = r)
   \<and> (\<exists>p v p' v'. seller_upload_prices example_env example_feed [] = Some (Inr p, v)
         \<and> seller_upload_prices example_env example_feed
               [ListCall (PStr []),
                StocksCall [\<lparr>offer_id = PStr (lit ''A''), stock = 100\<rparr>,
                            \<lparr>offer_id = PStr (lit ''B''), stock = 0\<rparr>,
                            \<lparr>offer_id = PStr (lit ''C''), stock = 0\<rparr>]] = Some (Inr p', v')
         \<and> p' = p)
   \<and> (\<exists>st st'. market_create_stocks (lit ''2024-01-01T00:00:00Z'') example_feed example_catalog
             (PInt 7) = (Inr st, [PStr (lit ''C'')])
         \<and> market_create_stocks (lit ''2024-01-02T00:00:00Z'') example_feed example_catalog
             (PInt 7) = (Inr st', [PStr (lit ''C'')])
         \<and> map (with_date (lit ''2024-01-01T00:00:00Z'')) st' = st)"
proof -
  define u where "u = [ListCall (PStr []),
        StocksCall [\<lparr>offer_id = PStr (lit ''A''), stock = 100\<rparr>, \<lparr>offer_id = PStr (lit ''B''), stock = 0\<rparr>,
                    \<lparr>offer_id = PStr (lit ''C''), stock = 0\<rparr>]]"
  have same: "map_option fst (seller_get_offer_ids example_env u)
     = map_option fst (seller_get_offer_ids example_env [])"
    by (simp add: example_offer_ids)
  note t = upload_twice_same_records [OF same, of example_feed]
  have r1: "seller_upload_stocks example_env example_feed [] =
     Some (Inr ([\<lparr>offer_id = PStr (lit ''A''), stock = 100\<rparr>],
                [\<lparr>offer_id = PStr (lit ''A''), stock = 100\<rparr>, \<lparr>offer_id = PStr (lit ''B''), stock = 0\<rparr>,
                 \<lparr>offer_id = PStr (lit ''C''), stock = 0\<rparr>]), u)"
    using example_upload_stocks [of "[]"] by (simp add: u_def)
  obtain r' u' where r2: "seller_upload_stocks example_env example_feed u = Some (Inr r', u')"
    using example_upload_stocks [of u] by blast
  from t r1 r2
  have "r' = ([\<lparr>offer_id = PStr (lit ''A''), stock = 100\<rparr>],
                [\<lparr>offer_id = PStr (lit ''A''), stock = 100\<rparr>, \<lparr>offer_id = PStr (lit ''B''), stock = 0\<rparr>,
                 \<lparr>offer_id = PStr (lit ''C''), stock = 0\<rparr>])"
    by blast
  with r1 r2 have a: "\<exists>r w r' u'. seller_upload_stocks example_env example_feed [] = Some (Inr r, w)
         \<and> w = u \<and> seller_upload_stocks example_env example_feed w = Some (Inr r', u') \<and> r' = r"
    by blast
  have ep: "import_prices_ep example_env = (\<lambda>chunk s. (Inr (), s @ [PricesCall chunk]))"
    by (simp add: example_env_def)
  have "\<exists>p v. seller_upload_prices example_env example_feed s = Some (Inr p, v)" for s
    by (simp add: seller_upload_prices_def example_offer_ids ep example_feed_prices
        upload_all_def divide_one_chunk)
  then obtain p v p' v' where p1: "seller_upload_prices example_env example_feed [] = Some (Inr p, v)"
    and p2: "seller_upload_prices example_env example_feed u = Some (Inr p', v')"
    by blast
  from t p1 p2 have "p' = p" by blast
  with p1 p2 have b: "\<exists>p v p' v'. seller_upload_prices example_env example_feed [] = Some (Inr p, v)
         \<and> seller_upload_prices example_env example_feed u = Some (Inr p', v') \<and> p' = p"
    by blast
  have m: "\<exists>st. market_create_stocks d example_feed example_catalog (PInt 7)
            = (Inr st, [PStr (lit ''C'')])" for d
    by (simp add: market_create_stocks_seller example_stocks)
  from m obtain st where m1: "market_create_stocks (lit ''2024-01-01T00:00:00Z'') example_feed
      example_catalog (PInt 7) = (Inr st, [PStr (lit ''C'')])" by blast
  from m obtain st' where m2: "market_create_stocks (lit ''2024-01-02T00:00:00Z'') example_feed
      example_catalog (PInt 7) = (Inr st', [PStr (lit ''C'')])" by blast
  from t m1 m2 have "map (with_date (lit ''2024-01-01T00:00:00Z'')) st' = st" by blast
  with m1 m2 have c: "\<exists>st st'. market_create_stocks (lit ''2024-01-01T00:00:00Z'') example_feed
             example_catalog (PInt 7) = (Inr st, [PStr (lit ''C'')])
         \<and> market_create_stocks (lit ''2024-01-02T00:00:00Z'') example_feed example_catalog
             (PInt 7) = (Inr st', [PStr (lit ''C'')])
         \<and> map (with_date (lit ''2024-01-01T00:00:00Z'')) st' = st"
    by blast
  from same a b c show ?thesis unfolding u_def by (intro conjI)
qed

section \<open>The upload step inside upload_stocks\<close>

text \<open>
  In market.upload_stocks the exception of a failing chunk is not caught: the call ends
  with that error, in the state that the server reached with the failing request.
\<close>

lemma market_upload_stocks_error:
  assumes "market_get_offer_ids env campaign_id s = Some (Inr ids, s1)"
    and "market_create_stocks (utcnow env s1) F ids wh = (Inr stocks, C')"
    and "upload_all (put_stocks_ep env campaign_id) stocks 2000 s1 = (Inl e, s2)"
  shows "market_upload_stocks env F campaign_id wh s = Some (Inl e, s2)"
  using assms by (simp add: market_upload_stocks_def)

lemma seller_upload_stocks_error:
  assumes "seller_get_offer_ids env s = Some (Inr ids, s1)"
    and "seller_create_stocks F ids = (Inr stocks, C')"
    and "upload_all (import_stocks_ep env) stocks 100 s1 = (Inl e, s2)"
  shows "seller_upload_stocks env F s = Some (Inl e, s2)"
  using assms by (simp add: seller_upload_stocks_def)

end
